theory Spec2Isabelle
  imports Complex_Main "HOL-Library.Word" "HOL-Library.Option_ord"
begin

section \<open>Python values and the library interface\<close>

text \<open>
  The ledger of \<^verbatim>\<open>BancoBlockchain.py\<close> (class \<^verbatim>\<open>IoTBlockchainDB\<close>) stores its
  blocks as dictionaries in a MongoDB collection and hashes their renderings. A Python
  number is an \<^verbatim>\<open>int\<close> or a \<^verbatim>\<open>float\<close>; the two print differently, so the model
  keeps the distinction. A float is modelled by the rational it denotes; the rounding of
  float arithmetic is not modelled (halving a reward is exact in binary floating point,
  and no property below depends on the value of a measured time or hash rate, only on
  the sign of the elapsed time).
\<close>

datatype pynum = IntNum int | FloatNum rat

fun num_val :: "pynum \<Rightarrow> rat" where
  "num_val (IntNum i) = of_int i"
| "num_val (FloatNum r) = r"

datatype pyval =
    PyNone
  | PyInt int
  | PyFloat rat
  | PyStr string
  | PyList "pyval list"
  | PyDict "(string \<times> pyval) list"

fun num_doc :: "pynum \<Rightarrow> pyval" where
  "num_doc (IntNum i) = PyInt i"
| "num_doc (FloatNum r) = PyFloat r"

datatype py_error = TypeError | ValueError

text \<open>
  The functions of the Python standard library that the ledger calls and whose code is
  not part of the repository: \<^verbatim>\<open>hashlib.sha256\<close> (the digest as a 256-bit word),
  \<^verbatim>\<open>json.dumps(_, sort_keys=True)\<close> and \<^verbatim>\<open>str\<close> on a dictionary. Strings are byte
  strings, so \<^verbatim>\<open>.encode()\<close> is the identity.
\<close>

record pylib =
  sha256 :: "string \<Rightarrow> 256 word"
  json_dumps :: "pyval \<Rightarrow> string"
  py_str :: "pyval \<Rightarrow> string"

subsection \<open>Hex digests and decimal strings\<close>

definition hex_char :: "nat \<Rightarrow> char" where
  "hex_char d = ''0123456789abcdef'' ! d"

fun hex_of_nat :: "nat \<Rightarrow> nat \<Rightarrow> string" where
  "hex_of_nat 0 n = []"
| "hex_of_nat (Suc k) n = hex_of_nat k (n div 16) @ [hex_char (n mod 16)]"

text \<open>\<^verbatim>\<open>.hexdigest()\<close>: 64 lowercase hexadecimal digits, most significant first.\<close>

definition hexdigest :: "256 word \<Rightarrow> string" where
  "hexdigest w = hex_of_nat 64 (unat w)"

definition hex_val :: "char \<Rightarrow> nat option" where
  "hex_val c =
     (let n = (of_char c :: nat) in
      if 48 \<le> n \<and> n \<le> 57 then Some (n - 48)
      else if 97 \<le> n \<and> n \<le> 102 then Some (n - 87)
      else if 65 \<le> n \<and> n \<le> 70 then Some (n - 55)
      else None)"

fun int16_acc :: "string \<Rightarrow> nat \<Rightarrow> nat option" where
  "int16_acc [] acc = Some acc"
| "int16_acc (c # cs) acc =
     (case hex_val c of None \<Rightarrow> None | Some d \<Rightarrow> int16_acc cs (16 * acc + d))"

text \<open>
  \<^verbatim>\<open>int(s, 16)\<close> on a string of hexadecimal digits; \<open>None\<close> is the \<^verbatim>\<open>ValueError\<close>
  of Python. (Python also accepts a sign, a \<^verbatim>\<open>0x\<close> prefix, underscores and surrounding
  blanks; a hex digest has none of them, see \<open>int16_hexdigest\<close>.)
\<close>

definition int16 :: "string \<Rightarrow> nat option" where
  "int16 s = (if s = [] then None else int16_acc s 0)"

definition digit_char :: "nat \<Rightarrow> char" where
  "digit_char d = ''0123456789'' ! d"

function str_nat :: "nat \<Rightarrow> string" where
  "str_nat n = (if n < 10 then [digit_char n] else str_nat (n div 10) @ [digit_char (n mod 10)])"
  by pat_completeness auto
termination
  by (relation "measure id") auto

declare str_nat.simps [simp del]

text \<open>\<^verbatim>\<open>str(n)\<close> of a Python integer: its decimal form.\<close>

definition str_int :: "int \<Rightarrow> string" where
  "str_int i = (if i < 0 then CHR ''-'' # str_nat (nat (- i)) else str_nat (nat i))"

section \<open>Canonical hashing\<close>

definition hash_json_object :: "pylib \<Rightarrow> pyval \<Rightarrow> string" where
  "hash_json_object lib json_object = hexdigest (sha256 lib (json_dumps lib json_object))"

definition hash_string_pair :: "pylib \<Rightarrow> string \<Rightarrow> string \<Rightarrow> string" where
  "hash_string_pair lib string_1 string_2 = hexdigest (sha256 lib (string_1 @ string_2))"

section \<open>Merkle root\<close>

text \<open>
  The loop \<^verbatim>\<open>for i in range(0, len(transaction_ids) - 1, 2)\<close> of \<^verbatim>\<open>find_merkle_root\<close>,
  from index \<open>i\<close> with the list built so far.
\<close>

function merkle_pairs :: "pylib \<Rightarrow> string list \<Rightarrow> nat \<Rightarrow> string list \<Rightarrow> string list" where
  "merkle_pairs lib ids i new_list =
     (if i + 1 < length ids
      then merkle_pairs lib ids (i + 2)
             (new_list @ [hash_string_pair lib (ids ! i) (ids ! (i + 1))])
      else new_list)"
  by pat_completeness auto
termination
  by (relation "measure (\<lambda>(lib, ids, i, new_list). length ids - i)") auto

declare merkle_pairs.simps [simp del]

lemma length_merkle_pairs:
  "length (merkle_pairs lib ids i acc) = length acc + (length ids - i) div 2"
proof (induction lib ids i acc rule: merkle_pairs.induct)
  case (1 lib ids i new_list)
  show ?case
  proof (cases "i + 1 < length ids")
    case True
    then have "(length ids - i) div 2 = Suc ((length ids - (i + 2)) div 2)"
      by (simp add: div_if)
    with True "1.IH" show ?thesis
      by (subst merkle_pairs.simps) simp
  next
    case False
    then have "(length ids - i) div 2 = 0" by simp
    with False show ?thesis
      by (subst merkle_pairs.simps) simp
  qed
qed

definition merkle_level :: "pylib \<Rightarrow> string list \<Rightarrow> string list" where
  "merkle_level lib ids =
     (let new_list = merkle_pairs lib ids 0 []
      in if length ids mod 2 = 1
         then new_list @ [hash_string_pair lib (last ids) (last ids)]
         else new_list)"

lemma length_merkle_level:
  "length (merkle_level lib ids) = length ids div 2 + length ids mod 2"
  by (simp add: merkle_level_def Let_def length_merkle_pairs)

function find_merkle_root :: "pylib \<Rightarrow> string list \<Rightarrow> string option" where
  "find_merkle_root lib transaction_ids =
     (if length transaction_ids = 0 then None
      else if length transaction_ids = 1 then Some (transaction_ids ! 0)
      else find_merkle_root lib (merkle_level lib transaction_ids))"
  by pat_completeness auto
termination
proof (relation "measure (\<lambda>(lib, ids). length ids)")
  show "wf (measure (\<lambda>(lib, ids). length ids))" by simp
next
  fix lib :: pylib and transaction_ids :: "string list"
  assume "length transaction_ids \<noteq> 0" and "length transaction_ids \<noteq> 1"
  then have "2 \<le> length transaction_ids"
    by (cases transaction_ids) (auto simp: Suc_le_eq)
  then have "length transaction_ids div 2 + length transaction_ids mod 2 < length transaction_ids"
    by presburger
  then show "((lib, merkle_level lib transaction_ids), (lib, transaction_ids))
               \<in> measure (\<lambda>(lib, ids). length ids)"
    by (simp add: length_merkle_level)
qed

declare find_merkle_root.simps [simp del]

section \<open>Proof of work\<close>

definition max_nonce :: nat where
  "max_nonce = 2 ^ 32"

text \<open>
  \<^verbatim>\<open>2 ** e\<close> on a Python integer \<open>e\<close>: an \<^verbatim>\<open>int\<close> for \<open>e \<ge> 0\<close>, a \<^verbatim>\<open>float\<close>
  for \<open>e < 0\<close>, which is exact down to \<open>2 ** -1074\<close> and \<open>0.0\<close> below.
\<close>

definition py_pow2 :: "int \<Rightarrow> pynum" where
  "py_pow2 e =
     (if 0 \<le> e then IntNum (2 ^ nat e)
      else if - 1074 \<le> e then FloatNum (1 / 2 ^ nat (- e))
      else FloatNum 0)"

definition pow_target :: "int \<Rightarrow> rat" where
  "pow_target number_of_bits = num_val (py_pow2 (256 - number_of_bits))"

text \<open>The string hashed for one trial: \<^verbatim>\<open>str(last_block) + str(nonce)\<close>.\<close>

definition pow_preimage :: "pylib \<Rightarrow> pyval \<Rightarrow> nat \<Rightarrow> string" where
  "pow_preimage lib last_block n = py_str lib last_block @ str_int (int n)"

text \<open>
  The loop \<^verbatim>\<open>for nonce in range(max_nonce)\<close> of \<^verbatim>\<open>calculate_nonce\<close>, from the
  trial \<open>n\<close> on. \<open>Inr None\<close> is the \<^verbatim>\<open>return None\<close> after the loop.
\<close>

function calculate_nonce_from ::
  "pylib \<Rightarrow> pyval \<Rightarrow> rat \<Rightarrow> nat \<Rightarrow> py_error + nat option" where
  "calculate_nonce_from lib last_block target n =
     (if n < max_nonce
      then (case int16 (hexdigest (sha256 lib (pow_preimage lib last_block n))) of
              None \<Rightarrow> Inl ValueError
            | Some hash_int \<Rightarrow>
                if of_nat hash_int < target then Inr (Some n)
                else calculate_nonce_from lib last_block target (n + 1))
      else Inr None)"
  by pat_completeness auto
termination
  by (relation "measure (\<lambda>(lib, last_block, target, n). max_nonce - n)") auto

declare calculate_nonce_from.simps [simp del]

definition calculate_nonce :: "pylib \<Rightarrow> pyval \<Rightarrow> int \<Rightarrow> py_error + nat option" where
  "calculate_nonce lib last_block number_of_bits =
     calculate_nonce_from lib last_block (pow_target number_of_bits) 0"

section \<open>Transactions, blocks and the ledger\<close>

record transaction_info =
  sender :: string
  recipient :: string
  amount :: pynum

record transaction =
  transaction_id :: string
  transaction_info :: transaction_info

text \<open>
  A block, with the keys of the dictionary built by \<^verbatim>\<open>generate_next_block\<close>. The
  fields \<open>nonce\<close>, \<open>previous_hash\<close> and \<open>merkle_root\<close> can hold \<^verbatim>\<open>None\<close>.
\<close>

record block =
  previous_block :: int
  height :: int
  timestamp :: string
  transactions :: "transaction list"
  merkle_root :: "string option"
  number_of_transaction :: int
  nonce :: "int option"
  previous_hash :: "string option"
  block_reward :: pynum
  difficulty_bits :: int
  difficulty :: pynum
  elapsed_time :: pynum
  hash_power :: pynum

text \<open>
  The state of an \<^verbatim>\<open>IoTBlockchainDB\<close> object: the collection \<^verbatim>\<open>self.blocks\<close> in
  insertion order, the pending transactions, and the two measurements. The store is
  taken to accept every block it is handed and to return it as it was stored; the size
  limits of the database are not modelled.
\<close>

record ledger =
  blocks :: "block list"
  transactions :: "transaction list"
  elapsed_time :: pynum
  hash_power :: pynum

text \<open>\<^verbatim>\<open>__init__\<close>, on a database that holds the blocks \<open>persisted\<close>.\<close>

definition ledger_init :: "block list \<Rightarrow> ledger" where
  "ledger_init persisted =
     \<lparr>blocks = persisted, transactions = [], elapsed_time = IntNum 0, hash_power = IntNum 0\<rparr>"

subsection \<open>The dictionaries handed to the serialisers\<close>

definition transaction_info_doc :: "transaction_info \<Rightarrow> pyval" where
  "transaction_info_doc ti =
     PyDict [(''sender'', PyStr (sender ti)),
             (''recipient'', PyStr (recipient ti)),
             (''amount'', num_doc (amount ti))]"

definition transaction_doc :: "transaction \<Rightarrow> pyval" where
  "transaction_doc t =
     PyDict [(''transaction_id'', PyStr (transaction_id t)),
             (''transaction_info'', transaction_info_doc (transaction_info t))]"

fun str_opt_doc :: "string option \<Rightarrow> pyval" where
  "str_opt_doc None = PyNone"
| "str_opt_doc (Some s) = PyStr s"

fun int_opt_doc :: "int option \<Rightarrow> pyval" where
  "int_opt_doc None = PyNone"
| "int_opt_doc (Some i) = PyInt i"

definition block_doc :: "block \<Rightarrow> pyval" where
  "block_doc b =
     PyDict [(''previous_block'', PyInt (previous_block b)),
             (''height'', PyInt (height b)),
             (''timestamp'', PyStr (timestamp b)),
             (''transactions'', PyList (map transaction_doc (block.transactions b))),
             (''merkle_root'', str_opt_doc (merkle_root b)),
             (''number_of_transaction'', PyInt (number_of_transaction b)),
             (''nonce'', int_opt_doc (nonce b)),
             (''previous_hash'', str_opt_doc (previous_hash b)),
             (''block_reward'', num_doc (block_reward b)),
             (''difficulty_bits'', PyInt (difficulty_bits b)),
             (''difficulty'', num_doc (difficulty b)),
             (''elapsed_time'', num_doc (block.elapsed_time b)),
             (''hash_power'', num_doc (block.hash_power b))]"

fun block_opt_doc :: "block option \<Rightarrow> pyval" where
  "block_opt_doc None = PyNone"
| "block_opt_doc (Some b) = block_doc b"

subsection \<open>Constants and store queries\<close>

definition init_reward :: int where "init_reward = 50"
definition block_reward_rate :: int where "block_reward_rate = 1000"
definition difficulty_bits_block_rate :: int where "difficulty_bits_block_rate = 100"
definition difficulty_block_rate :: int where "difficulty_block_rate = 100"

definition get_length :: "ledger \<Rightarrow> int" where
  "get_length st = int (length (blocks st))"

text \<open>\<^verbatim>\<open>find_one({'height': h})\<close>: the first stored block of that height, if any.\<close>

definition find_one_height :: "block list \<Rightarrow> int \<Rightarrow> block option" where
  "find_one_height bs h = find (\<lambda>b. height b = h) bs"

definition get_last_block :: "ledger \<Rightarrow> block option" where
  "get_last_block st = find_one_height (blocks st) (get_length st)"

definition get_genesis_block :: "ledger \<Rightarrow> block option" where
  "get_genesis_block st = find_one_height (blocks st) 1"

definition get_block :: "ledger \<Rightarrow> int \<Rightarrow> block option" where
  "get_block st h = find_one_height (blocks st) h"

definition get_transaction_ids :: "ledger \<Rightarrow> string list" where
  "get_transaction_ids st = map transaction_id (transactions st)"

subsection \<open>Reward and difficulty of the next block\<close>

definition calculate_block_reward :: "ledger \<Rightarrow> pynum" where
  "calculate_block_reward st =
     (case get_last_block st of
        None \<Rightarrow> IntNum init_reward
      | Some last_block \<Rightarrow>
          (let current_reward = block_reward last_block;
               current_height = height last_block
           in if num_val current_reward > 1 \<and> current_height mod block_reward_rate = 0
              then FloatNum (num_val current_reward / 2)
              else if num_val current_reward < 1 then IntNum 0
              else current_reward))"

definition calculate_difficulty_bits :: "ledger \<Rightarrow> int" where
  "calculate_difficulty_bits st =
     (case get_last_block st of
        None \<Rightarrow> 0
      | Some last_block \<Rightarrow>
          (let current_difficulty_bits = difficulty_bits last_block;
               current_height = height last_block
           in if current_height mod difficulty_bits_block_rate = 0
              then current_difficulty_bits + 1
              else current_difficulty_bits))"

definition calculate_difficulty :: "ledger \<Rightarrow> pynum" where
  "calculate_difficulty st =
     (case get_last_block st of
        None \<Rightarrow> IntNum 1
      | Some last_block \<Rightarrow>
          (let current_difficulty_bits = difficulty_bits last_block;
               current_difficulty = difficulty last_block;
               current_height = height last_block
           in if current_height mod difficulty_block_rate = 0
              then py_pow2 (current_difficulty_bits + 1)
              else current_difficulty))"

subsection \<open>Operations of the ledger\<close>

text \<open>\<^verbatim>\<open>x or y\<close> on an optional string: \<^verbatim>\<open>None\<close> and the empty string are false.\<close>

definition py_or :: "string option \<Rightarrow> string \<Rightarrow> string" where
  "py_or x y = (case x of None \<Rightarrow> y | Some s \<Rightarrow> if s = [] then y else s)"

text \<open>
  \<^verbatim>\<open>generate_next_block(nonce, previous_hash)\<close>; \<open>now\<close> is the string
  \<^verbatim>\<open>ctime(time())\<close> read from the clock. Returns the block and the new state.
\<close>

definition generate_next_block ::
  "pylib \<Rightarrow> string \<Rightarrow> int option \<Rightarrow> string option \<Rightarrow> ledger \<Rightarrow> block \<times> ledger" where
  "generate_next_block lib now n prev st =
     (let b = \<lparr>previous_block = get_length st,
                height = get_length st + 1,
                timestamp = now,
                block.transactions = transactions st,
                merkle_root = find_merkle_root lib (get_transaction_ids st),
                number_of_transaction = int (length (transactions st)),
                nonce = n,
                previous_hash =
                  Some (py_or prev (hash_json_object lib (block_opt_doc (get_last_block st)))),
                block_reward = calculate_block_reward st,
                difficulty_bits = calculate_difficulty_bits st,
                difficulty = calculate_difficulty st,
                block.elapsed_time = elapsed_time st,
                block.hash_power = hash_power st\<rparr>
      in (b, st\<lparr>transactions := [], blocks := blocks st @ [b]\<rparr>))"

definition generate_genesis_block :: "pylib \<Rightarrow> string \<Rightarrow> ledger \<Rightarrow> ledger" where
  "generate_genesis_block lib now st = snd (generate_next_block lib now (Some 0) None st)"

definition reset :: "pylib \<Rightarrow> string \<Rightarrow> ledger \<Rightarrow> ledger" where
  "reset lib now st = generate_genesis_block lib now (st\<lparr>blocks := []\<rparr>)"

definition add_transaction :: "pylib \<Rightarrow> string \<Rightarrow> string \<Rightarrow> pynum \<Rightarrow> ledger \<Rightarrow> ledger" where
  "add_transaction lib s r a st =
     (let info = \<lparr>sender = s, recipient = r, amount = a\<rparr>;
          tid = hash_json_object lib (transaction_info_doc info)
      in st\<lparr>transactions :=
               transactions st @ [\<lparr>transaction_id = tid, transaction_info = info\<rparr>]\<rparr>)"

text \<open>
  A call either returns or raises; in both cases the object is left in some state.
\<close>

datatype outcome = Done ledger | Raised py_error ledger

fun outcome_state :: "outcome \<Rightarrow> ledger" where
  "outcome_state (Done st) = st"
| "outcome_state (Raised e st) = st"

text \<open>
  \<^verbatim>\<open>mine_for_next_block\<close>; \<open>start_time\<close> and \<open>end_time\<close> are the two readings of
  \<^verbatim>\<open>time()\<close>. Subscripting the \<^verbatim>\<open>None\<close> of an empty store and \<^verbatim>\<open>int(None)\<close>
  raise \<^verbatim>\<open>TypeError\<close>.
\<close>

definition mine_for_next_block :: "pylib \<Rightarrow> rat \<Rightarrow> rat \<Rightarrow> string \<Rightarrow> ledger \<Rightarrow> outcome" where
  "mine_for_next_block lib start_time end_time now st =
     (let reward_amount = calculate_block_reward st
      in case get_last_block st of
           None \<Rightarrow> Raised TypeError st
         | Some last_block \<Rightarrow>
             (case calculate_nonce lib (block_doc last_block) (difficulty_bits last_block) of
                Inl e \<Rightarrow> Raised e st
              | Inr next_nonce \<Rightarrow>
                  (let st1 = st\<lparr>elapsed_time := FloatNum (end_time - start_time)\<rparr>
                   in case (if end_time - start_time > 0
                            then (case next_nonce of
                                    None \<Rightarrow> Inl TypeError
                                  | Some n \<Rightarrow>
                                      Inr (st1\<lparr>hash_power :=
                                             FloatNum (of_nat n / (end_time - start_time))\<rparr>))
                            else Inr st1) of
                        Inl e \<Rightarrow> Raised e st1
                      | Inr st2 \<Rightarrow>
                          Done (snd (generate_next_block lib now (map_option int next_nonce) None
                                  (add_transaction lib ''00000000000000000000x0''
                                     ''00000000000000000000x1'' reward_amount st2))))))"

subsection \<open>Queries sorted by a field\<close>

text \<open>
  \<^verbatim>\<open>find(...).sort([(field, -1)]).limit(number)\<close>: descending by the field (MongoDB
  leaves the order of equal keys open; the model fixes one), \<^verbatim>\<open>null\<close> below every
  number, and a limit of 0 meaning no limit.
\<close>

definition sort_desc :: "('a \<Rightarrow> 'k::linorder) \<Rightarrow> 'a list \<Rightarrow> 'a list" where
  "sort_desc key xs = rev (sort_key key xs)"

definition limit :: "int \<Rightarrow> 'a list \<Rightarrow> 'a list" where
  "limit number xs = (if number = 0 then xs else take (nat \<bar>number\<bar>) xs)"

definition get_top_blocks :: "ledger \<Rightarrow> string \<Rightarrow> int \<Rightarrow> block list" where
  "get_top_blocks st state number =
     (if state = ''difficulty''
        then limit number (sort_desc (\<lambda>b. num_val (difficulty b)) (blocks st))
      else if state = ''elapsed_time''
        then limit number (sort_desc (\<lambda>b. num_val (block.elapsed_time b)) (blocks st))
      else if state = ''block_reward''
        then limit number (sort_desc (\<lambda>b. num_val (block_reward b)) (blocks st))
      else if state = ''hash_power''
        then limit number (sort_desc (\<lambda>b. num_val (block.hash_power b)) (blocks st))
      else if state = ''height''
        then limit number (sort_desc height (blocks st))
      else if state = ''nonce''
        then limit number (sort_desc nonce (blocks st))
      else if state = ''number_of_transaction''
        then limit number (sort_desc number_of_transaction (blocks st))
      else [])"

subsection \<open>Runs\<close>

text \<open>The calls a client can make, with what each reads from the clock.\<close>

datatype op =
    Reset string
  | AddTransaction string string pynum
  | Mine rat rat string
  | GenerateNextBlock "int option" "string option" string

fun apply_op :: "pylib \<Rightarrow> ledger \<Rightarrow> op \<Rightarrow> ledger" where
  "apply_op lib st (Reset now) = reset lib now st"
| "apply_op lib st (AddTransaction s r a) = add_transaction lib s r a st"
| "apply_op lib st (Mine start_time end_time now) =
     outcome_state (mine_for_next_block lib start_time end_time now st)"
| "apply_op lib st (GenerateNextBlock n prev now) = snd (generate_next_block lib now n prev st)"

definition run_ops :: "pylib \<Rightarrow> ledger \<Rightarrow> op list \<Rightarrow> ledger" where
  "run_ops lib st ops = foldl (apply_op lib) st ops"

text \<open>The chain grown from the genesis block of a \<^verbatim>\<open>reset()\<close> by a sequence of calls.\<close>

definition grown_chain :: "pylib \<Rightarrow> string \<Rightarrow> ledger \<Rightarrow> op list \<Rightarrow> block list" where
  "grown_chain lib now st ops = blocks (run_ops lib (reset lib now st) ops)"

subsection \<open>A small instance of the library interface\<close>

text \<open>
  The theorems below hold for every instance of \<open>pylib\<close>. To evaluate the model on
  concrete inputs, two small instances: both serialisers print the height of a block
  dictionary; the digest of \<open>toy_lib\<close> is 0 for a string that ends in the digit 3 and
  the largest digest otherwise, that of \<open>stuck_lib\<close> is always the largest digest.
\<close>

definition toy_show :: "pyval \<Rightarrow> string" where
  "toy_show v =
     (case v of
        PyDict kvs \<Rightarrow>
          (case map_of kvs ''height'' of
             Some (PyInt h) \<Rightarrow> ''block '' @ str_int h
           | _ \<Rightarrow> ''dict'')
      | _ \<Rightarrow> ''None'')"

definition toy_sha256 :: "string \<Rightarrow> 256 word" where
  "toy_sha256 s = (if s \<noteq> [] \<and> last s = CHR ''3'' then 0 else - 1)"

definition toy_lib :: pylib where
  "toy_lib = \<lparr>sha256 = toy_sha256, json_dumps = toy_show, py_str = toy_show\<rparr>"

definition stuck_lib :: pylib where
  "stuck_lib = \<lparr>sha256 = (\<lambda>s. - 1), json_dumps = toy_show, py_str = toy_show\<rparr>"

text \<open>
  A state for the search that finds nothing: the chain of 101 blocks that \<^verbatim>\<open>reset()\<close>
  and 100 calls of \<^verbatim>\<open>mine_for_next_block\<close> build under \<open>stuck_lib\<close> (the first 101
  blocks are sealed at 0 difficulty bits, where every digest is below the target), with
  one pending transaction.
\<close>

definition stuck_ledger :: ledger where
  "stuck_ledger =
     add_transaction stuck_lib ''alice'' ''bob'' (IntNum 7)
       (run_ops stuck_lib (reset stuck_lib ''t'' (ledger_init [])) (replicate 100 (Mine 0 1 ''t'')))"

subsection \<open>Notions used in the statements\<close>

text \<open>
  The digest of one trial as a number; the reward of a block as a function of its height
  (the recurrence of \<^verbatim>\<open>calculate_block_reward\<close> unfolded from the genesis block); and
  the invariant of a chain: heights count from 1 and every field follows its schedule.
\<close>

definition digest_int :: "pylib \<Rightarrow> pyval \<Rightarrow> nat \<Rightarrow> nat" where
  "digest_int lib last_block n = unat (sha256 lib (pow_preimage lib last_block n))"

definition reward_step :: "pynum \<Rightarrow> int \<Rightarrow> pynum" where
  "reward_step r h =
     (if num_val r > 1 \<and> h mod 1000 = 0 then FloatNum (num_val r / 2)
      else if num_val r < 1 then IntNum 0
      else r)"

function reward_at :: "nat \<Rightarrow> pynum" where
  "reward_at h = (if h \<le> 1 then IntNum 50 else reward_step (reward_at (h - 1)) (int (h - 1)))"
  by pat_completeness auto
termination
  by (relation "measure id") auto

declare reward_at.simps [simp del]

definition chain_inv :: "block list \<Rightarrow> bool" where
  "chain_inv bs \<longleftrightarrow>
     (\<forall>i<length bs.
        height (bs ! i) = int i + 1
        \<and> block_reward (bs ! i) = reward_at (Suc i)
        \<and> difficulty_bits (bs ! i) = int (i div 100)
        \<and> difficulty (bs ! i) = IntNum (2 ^ (i div 100)))"

text \<open>
  The string that the search started by \<^verbatim>\<open>mine_for_next_block\<close> hashes for the trial
  \<open>n\<close>: \<^verbatim>\<open>calculate_nonce\<close> is called on the last stored block (there is no search on
  an empty store).
\<close>

definition mine_pow_preimage :: "pylib \<Rightarrow> ledger \<Rightarrow> nat \<Rightarrow> string option" where
  "mine_pow_preimage lib st n =
     map_option (\<lambda>last_block. pow_preimage lib (block_doc last_block) n) (get_last_block st)"

text \<open>
  For comparison, the pre-image in the words of the specification: the canonical
  (key-sorted) serialisation of a candidate for the block being built, a record of the
  height, the previous hash, the Merkle root over the pool with the reward transaction,
  the pending transactions, the timestamp and the difficulty fields, followed by the
  decimal form of the nonce. The code builds no such record before the search.
\<close>

definition spec_candidate_doc :: "pylib \<Rightarrow> string \<Rightarrow> ledger \<Rightarrow> pyval" where
  "spec_candidate_doc lib now st =
     (let pool = add_transaction lib ''00000000000000000000x0'' ''00000000000000000000x1''
                   (calculate_block_reward st) st;
          b = fst (generate_next_block lib now None None pool)
      in PyDict [(''height'', PyInt (height b)),
                 (''previous_hash'', str_opt_doc (previous_hash b)),
                 (''merkle_root'', str_opt_doc (merkle_root b)),
                 (''transactions'', PyList (map transaction_doc (block.transactions b))),
                 (''timestamp'', PyStr (timestamp b)),
                 (''difficulty_bits'', PyInt (difficulty_bits b)),
                 (''difficulty'', num_doc (difficulty b))])"

definition spec_pow_preimage :: "pylib \<Rightarrow> string \<Rightarrow> ledger \<Rightarrow> nat \<Rightarrow> string" where
  "spec_pow_preimage lib now st n = json_dumps lib (spec_candidate_doc lib now st) @ str_int (int n)"

section \<open>Hex digests read back\<close>

lemma hex_val_hex_char: "d < 16 \<Longrightarrow> hex_val (hex_char d) = Some d"
proof -
  assume "d < 16"
  then have "d \<in> set [0..<16]" by simp
  then have "d \<in> {0,1,2,3,4,5,6,7,8,9,10,11,12,13,14,15}"
    by (simp add: upt_rec numeral_eq_Suc)
  then show ?thesis
    by (auto simp: hex_val_def hex_char_def Let_def)
qed

lemma int16_acc_append:
  "int16_acc (xs @ ys) acc =
     (case int16_acc xs acc of None \<Rightarrow> None | Some a \<Rightarrow> int16_acc ys a)"
  by (induction xs arbitrary: acc) (auto split: option.splits)

lemma int16_acc_hex_of_nat:
  "int16_acc (hex_of_nat k n) acc = Some (acc * 16 ^ k + n mod 16 ^ k)"
proof (induction k arbitrary: n acc)
  case 0
  show ?case by simp
next
  case (Suc k)
  have "16 * (n div 16 mod 16 ^ k) + n mod 16 = n mod (16 * 16 ^ k)"
    by (simp add: mod_mult2_eq)
  then show ?case
    by (simp add: int16_acc_append Suc.IH hex_val_hex_char algebra_simps)
qed

lemma hex_of_nat_nonempty: "0 < k \<Longrightarrow> hex_of_nat k n \<noteq> []"
  by (cases k) auto

lemma int16_hexdigest: "int16 (hexdigest w) = Some (unat w)"
proof -
  have "unat w < 2 ^ 256"
    using unsigned_less [of w] by simp
  then have "unat w mod 16 ^ 64 = unat w" by simp
  then show ?thesis
    by (simp add: int16_def hexdigest_def hex_of_nat_nonempty int16_acc_hex_of_nat)
qed

section \<open>Decimal strings of numerals\<close>

lemma str_nat_numeral:
  "str_nat (numeral k) =
     (if (numeral k :: nat) < 10 then [digit_char (numeral k)]
      else str_nat (numeral k div 10) @ [digit_char (numeral k mod 10)])"
  by (rule str_nat.simps)

lemma str_nat_small: "str_nat 0 = ''0''" "str_nat 1 = ''1''" "str_nat (Suc 0) = ''1''"
  by (simp_all add: str_nat.simps digit_char_def)

section \<open>Merkle root: small inputs\<close>

lemma merkle_pairs_three:
  "merkle_pairs lib [a, b, c] 0 [] = [hash_string_pair lib a b]"
  by (simp add: merkle_pairs.simps [of _ _ 0] merkle_pairs.simps [of _ _ "Suc (Suc 0)"])

text \<open>
  C6. \<^verbatim>\<open>find_merkle_root\<close> returns \<^verbatim>\<open>None\<close> for the empty list of digests, the
  element itself (not hashed again) for a one-element list, and for three digests
  \<open>a\<close>, \<open>b\<close>, \<open>c\<close> the pair hash of the pair hash of \<open>a\<close> and \<open>b\<close> with the pair hash
  of \<open>c\<close> with itself: pairs are taken in list order and the odd last element is paired
  with itself.
\<close>

theorem find_merkle_root_small:
  "find_merkle_root lib [] = None
   \<and> find_merkle_root lib [x] = Some x
   \<and> find_merkle_root lib [a, b, c] =
       Some (hash_string_pair lib (hash_string_pair lib a b) (hash_string_pair lib c c))"
proof -
  have e: "find_merkle_root lib [] = None"
    by (simp add: find_merkle_root.simps)
  have s: "find_merkle_root lib [x] = Some x"
    by (simp add: find_merkle_root.simps)
  have l3: "merkle_level lib [a, b, c] = [hash_string_pair lib a b, hash_string_pair lib c c]"
    by (simp add: merkle_level_def merkle_pairs_three)
  have l2: "merkle_level lib [hash_string_pair lib a b, hash_string_pair lib c c]
              = [hash_string_pair lib (hash_string_pair lib a b) (hash_string_pair lib c c)]"
    by (simp add: merkle_level_def merkle_pairs.simps [of _ _ 0]
          merkle_pairs.simps [of _ _ "Suc (Suc 0)"])
  have t: "find_merkle_root lib [a, b, c] =
       Some (hash_string_pair lib (hash_string_pair lib a b) (hash_string_pair lib c c))"
    by (simp add: find_merkle_root.simps [of _ "[a, b, c]"] l3
          find_merkle_root.simps [of _ "[_, _]"] l2 find_merkle_root.simps [of _ "[_]"])
  from e s t show ?thesis by simp
qed

section \<open>Proof of work: the first qualifying nonce\<close>

lemma calculate_nonce_from_unfold:
  "calculate_nonce_from lib b t k =
     (if k < max_nonce
      then if of_nat (digest_int lib b k) < t then Inr (Some k)
           else calculate_nonce_from lib b t (Suc k)
      else Inr None)"
  by (subst calculate_nonce_from.simps) (simp add: int16_hexdigest digest_int_def)

lemma calculate_nonce_from_found:
  "calculate_nonce_from lib b t k = Inr (Some n) \<Longrightarrow>
     k \<le> n \<and> n < max_nonce \<and> of_nat (digest_int lib b n) < t
     \<and> (\<forall>m. k \<le> m \<and> m < n \<longrightarrow> \<not> of_nat (digest_int lib b m) < t)"
proof (induction lib b t k rule: calculate_nonce_from.induct)
  case (1 lib b t k)
  show ?case
  proof (cases "k < max_nonce \<and> \<not> of_nat (digest_int lib b k) < t")
    case True
    then have "calculate_nonce_from lib b t (k + 1) = Inr (Some n)"
      using "1.prems" by (subst (asm) calculate_nonce_from_unfold) simp
    then have ih: "k + 1 \<le> n \<and> n < max_nonce \<and> of_nat (digest_int lib b n) < t
        \<and> (\<forall>m. k + 1 \<le> m \<and> m < n \<longrightarrow> \<not> of_nat (digest_int lib b m) < t)"
      using True "1.IH" [of "digest_int lib b k"]
      by (simp add: int16_hexdigest digest_int_def)
    have "\<not> of_nat (digest_int lib b m) < t" if "k \<le> m" "m < n" for m
    proof (cases "m = k")
      case True
      with \<open>k < max_nonce \<and> \<not> of_nat (digest_int lib b k) < t\<close> show ?thesis by simp
    next
      case False
      with that ih show ?thesis by simp
    qed
    with ih show ?thesis by simp
  next
    case False
    then show ?thesis
      using "1.prems" by (subst (asm) calculate_nonce_from_unfold) (auto split: if_splits)
  qed
qed

lemma calculate_nonce_from_none:
  "calculate_nonce_from lib b t k = Inr None \<longleftrightarrow>
     (\<forall>m. k \<le> m \<and> m < max_nonce \<longrightarrow> \<not> of_nat (digest_int lib b m) < t)"
proof (induction lib b t k rule: calculate_nonce_from.induct)
  case (1 lib b t k)
  show ?case
  proof (cases "k < max_nonce")
    case False
    then show ?thesis
      by (subst calculate_nonce_from_unfold) simp
  next
    case kl: True
    show ?thesis
    proof (cases "of_nat (digest_int lib b k) < t")
      case True
      with kl show ?thesis
        by (subst calculate_nonce_from_unfold) auto
    next
      case False
      have ih: "calculate_nonce_from lib b t (k + 1) = Inr None \<longleftrightarrow>
          (\<forall>m. k + 1 \<le> m \<and> m < max_nonce \<longrightarrow> \<not> of_nat (digest_int lib b m) < t)"
        using kl False "1.IH" [of "digest_int lib b k"]
        by (simp add: int16_hexdigest digest_int_def)
      have "(\<forall>m. k \<le> m \<and> m < max_nonce \<longrightarrow> \<not> of_nat (digest_int lib b m) < t)
          \<longleftrightarrow> (\<forall>m. k + 1 \<le> m \<and> m < max_nonce \<longrightarrow> \<not> of_nat (digest_int lib b m) < t)"
        using False by (metis Suc_eq_plus1 Suc_leI le_neq_implies_less add_leD1)
      with kl False ih show ?thesis
        by (subst calculate_nonce_from_unfold) simp
    qed
  qed
qed

lemma calculate_nonce_from_no_error:
  "\<exists>r. calculate_nonce_from lib b t k = Inr r"
proof (induction lib b t k rule: calculate_nonce_from.induct)
  case (1 lib b t k)
  show ?case
    using "1.IH" [of "digest_int lib b k"]
    by (subst calculate_nonce_from_unfold) (simp add: int16_hexdigest digest_int_def)
qed

lemma calculate_nonce_no_error: "\<exists>r. calculate_nonce lib v d = Inr r"
  unfolding calculate_nonce_def by (rule calculate_nonce_from_no_error)

lemma calculate_nonce_from_cong:
  assumes "\<forall>m<max_nonce. digest_int lib' v m = digest_int lib v m"
  shows "calculate_nonce_from lib' v t k = calculate_nonce_from lib v t k"
  using assms
proof (induction lib v t k rule: calculate_nonce_from.induct)
  case (1 lib v t k)
  show ?case
  proof (cases "k < max_nonce \<and> \<not> of_nat (digest_int lib v k) < t")
    case True
    then have "calculate_nonce_from lib' v t (k + 1) = calculate_nonce_from lib v t (k + 1)"
      using "1.IH" [of "digest_int lib v k"] "1.prems"
      by (simp add: int16_hexdigest digest_int_def)
    with True "1.prems" show ?thesis
      by (simp add: calculate_nonce_from_unfold [of lib' v t k]
            calculate_nonce_from_unfold [of lib v t k])
  next
    case False
    with "1.prems" show ?thesis
      by (auto simp: calculate_nonce_from_unfold [of lib' v t k]
            calculate_nonce_from_unfold [of lib v t k])
  qed
qed

lemma pow_target_int:
  "0 \<le> d \<Longrightarrow> d \<le> 256 \<Longrightarrow> pow_target d = 2 ^ nat (256 - d)"
  by (simp add: pow_target_def py_pow2_def)

lemma pow_target_pos: "0 \<le> d \<Longrightarrow> d \<le> 256 \<Longrightarrow> 0 < pow_target d"
  by (simp add: pow_target_int)

lemma rat_less_pow2: "(of_nat v :: rat) < 2 ^ e \<longleftrightarrow> v < 2 ^ e"
proof -
  have "(of_nat v :: rat) < of_nat (2 ^ e) \<longleftrightarrow> v < 2 ^ e"
    by (rule of_nat_less_iff)
  then show ?thesis by simp
qed

lemma digest_int_less: "(of_nat (digest_int lib v n) :: rat) < 2 ^ 256"
proof -
  have "unat (sha256 lib (pow_preimage lib v n)) < 2 ^ 256"
    using unsigned_less [of "sha256 lib (pow_preimage lib v n)"] by simp
  then show ?thesis
    unfolding digest_int_def by (simp only: rat_less_pow2)
qed

lemma calculate_nonce_bits_0: "calculate_nonce lib v 0 = Inr (Some 0)"
proof -
  have "pow_target 0 = 2 ^ 256" by (simp add: pow_target_def py_pow2_def)
  then have d: "of_nat (digest_int lib v 0) < pow_target 0"
    by (simp only: digest_int_less)
  have m: "(0::nat) < max_nonce" by (simp add: max_nonce_def)
  show ?thesis
    unfolding calculate_nonce_def
    by (subst calculate_nonce_from_unfold) (simp only: m d if_True)
qed

subsection \<open>The two small libraries\<close>

lemma toy_show_block_doc: "toy_show (block_doc b) = ''block '' @ str_int (height b)"
  by (simp add: toy_show_def block_doc_def)

lemma unat_minus_1_256: "unat (- 1 :: 256 word) = 2 ^ 256 - 1"
  by (simp add: unsigned_minus_1_eq_mask mask_eq_exp_minus_1)

lemma toy_digest:
  "digest_int toy_lib (block_doc b) n =
     (if last (str_int (int n)) = CHR ''3'' then 0 else 2 ^ 256 - 1)"
proof -
  have "str_int (int n) \<noteq> []"
    by (simp add: str_int_def str_nat.simps [of n])
  then show ?thesis
    by (simp add: digest_int_def pow_preimage_def toy_lib_def toy_sha256_def unat_minus_1_256)
qed

lemma toy_digest_3: "digest_int toy_lib (block_doc b) 3 = 0"
  by (simp add: toy_digest str_int_def str_nat_numeral digit_char_def)

lemma stuck_digest: "digest_int stuck_lib v n = 2 ^ 256 - 1"
  by (simp add: digest_int_def stuck_lib_def unat_minus_1_256)

lemma pow_target_4: "pow_target 4 = 2 ^ 252"
  by (simp add: pow_target_def py_pow2_def)

lemma toy_nonce_4: "calculate_nonce toy_lib (block_doc b) 4 = Inr (Some 3)"
proof -
  have t: "\<not> (2 ^ 256 - 1 :: rat) < 2 ^ 252" by simp
  have m: "(0::nat) < max_nonce" "Suc 0 < max_nonce" "Suc (Suc 0) < max_nonce"
    "Suc (Suc (Suc 0)) < max_nonce"
    by (simp_all add: max_nonce_def)
  have d: "digest_int toy_lib (block_doc b) 0 = 2 ^ 256 - 1"
    "digest_int toy_lib (block_doc b) (Suc 0) = 2 ^ 256 - 1"
    "digest_int toy_lib (block_doc b) (Suc (Suc 0)) = 2 ^ 256 - 1"
    "digest_int toy_lib (block_doc b) (Suc (Suc (Suc 0))) = 0"
    by (simp_all add: toy_digest str_int_def str_nat_numeral str_nat_small digit_char_def
          numeral_2_eq_2 [symmetric] numeral_3_eq_3 [symmetric])
  have r: "(of_nat (2 ^ 256 - 1) :: rat) = 2 ^ 256 - 1"
    by simp
  show ?thesis
    unfolding calculate_nonce_def pow_target_4
    by (simp add: calculate_nonce_from_unfold [of _ _ _ 0]
          calculate_nonce_from_unfold [of _ _ _ "Suc 0"]
          calculate_nonce_from_unfold [of _ _ _ "Suc (Suc 0)"]
          calculate_nonce_from_unfold [of _ _ _ "Suc (Suc (Suc 0))"] m d r)
qed

lemma toy_calculate_nonce_found:
  assumes "0 \<le> d" and "d \<le> 256"
  shows "\<exists>n. calculate_nonce toy_lib (block_doc b) d = Inr (Some n)"
proof -
  obtain r where r: "calculate_nonce toy_lib (block_doc b) d = Inr r"
    using calculate_nonce_no_error by blast
  have "r \<noteq> None"
  proof
    assume "r = None"
    with r have "calculate_nonce_from toy_lib (block_doc b) (pow_target d) 0 = Inr None"
      by (simp add: calculate_nonce_def)
    then have "\<forall>m. 0 \<le> m \<and> m < max_nonce \<longrightarrow>
        \<not> of_nat (digest_int toy_lib (block_doc b) m) < pow_target d"
      by (simp only: calculate_nonce_from_none)
    moreover have "(3::nat) < max_nonce" by (simp add: max_nonce_def)
    ultimately have "\<not> of_nat (digest_int toy_lib (block_doc b) 3) < pow_target d"
      by blast
    with pow_target_pos [OF assms] show False
      by (simp add: toy_digest_3)
  qed
  with r show ?thesis by auto
qed

lemma stuck_not_found: "calculate_nonce stuck_lib v 1 = Inr None"
proof -
  have "pow_target 1 = 2 ^ 255" by (simp add: pow_target_def py_pow2_def)
  moreover have "\<not> (of_nat (2 ^ 256 - 1) :: rat) < 2 ^ 255"
    by (simp only: rat_less_pow2) simp
  ultimately show ?thesis
    unfolding calculate_nonce_def
    by (simp only: calculate_nonce_from_none stuck_digest) simp
qed

subsection \<open>The claim\<close>

text \<open>
  C2. For a block dictionary \<open>b\<close> and \<open>0 \<le> d \<le> 256\<close>, \<^verbatim>\<open>calculate_nonce\<close> never
  raises; when it returns an integer \<open>n\<close>, then \<open>n < 2^32\<close>, the SHA-256 digest of the
  string hashed for \<open>n\<close>, read as an unsigned 256-bit integer, is below
  \<open>2^(256 - d)\<close>, and no smaller nonce has such a digest; it returns \<^verbatim>\<open>None\<close>
  exactly when no nonce below \<open>2^32\<close> has such a digest.
\<close>

theorem calculate_nonce_first_qualifying:
  assumes "0 \<le> d" and "d \<le> 256"
  shows "(\<exists>r. calculate_nonce lib b d = Inr r)
    \<and> (\<forall>n. calculate_nonce lib b d = Inr (Some n) \<longrightarrow>
          n < 2 ^ 32
          \<and> unat (sha256 lib (py_str lib b @ str_int (int n))) < 2 ^ nat (256 - d)
          \<and> (\<forall>m<n. \<not> unat (sha256 lib (py_str lib b @ str_int (int m))) < 2 ^ nat (256 - d)))
    \<and> (calculate_nonce lib b d = Inr None \<longleftrightarrow>
          (\<forall>m<2 ^ 32. \<not> unat (sha256 lib (py_str lib b @ str_int (int m))) < 2 ^ nat (256 - d)))"
proof -
  have t: "pow_target d = 2 ^ nat (256 - d)"
    using assms by (rule pow_target_int)
  have q: "of_nat (digest_int lib b m) < pow_target d \<longleftrightarrow>
      unat (sha256 lib (py_str lib b @ str_int (int m))) < 2 ^ nat (256 - d)" for m
    unfolding t digest_int_def pow_preimage_def by (rule rat_less_pow2)
  have a: "\<exists>r. calculate_nonce lib b d = Inr r"
    unfolding calculate_nonce_def by (rule calculate_nonce_from_no_error)
  have f: "n < 2 ^ 32
          \<and> unat (sha256 lib (py_str lib b @ str_int (int n))) < 2 ^ nat (256 - d)
          \<and> (\<forall>m<n. \<not> unat (sha256 lib (py_str lib b @ str_int (int m))) < 2 ^ nat (256 - d))"
    if "calculate_nonce lib b d = Inr (Some n)" for n
    using calculate_nonce_from_found [of lib b "pow_target d" 0 n] that
    by (simp add: calculate_nonce_def q max_nonce_def)
  have n: "calculate_nonce lib b d = Inr None \<longleftrightarrow>
          (\<forall>m<2 ^ 32. \<not> unat (sha256 lib (py_str lib b @ str_int (int m))) < 2 ^ nat (256 - d))"
    using calculate_nonce_from_none [of lib b "pow_target d" 0]
    by (simp add: calculate_nonce_def q max_nonce_def)
  from a f n show ?thesis by blast
qed

text \<open>
  An instance: under \<open>toy_lib\<close>, at 4 difficulty bits, the search on the genesis block
  returns 3; the nonce 2 does not qualify.
\<close>

theorem calculate_nonce_first_qualifying_witness:
  "calculate_nonce toy_lib (block_doc (hd (blocks (reset toy_lib ''t'' (ledger_init []))))) 4
     = Inr (Some 3)
   \<and> (3::nat) < 2 ^ 32
   \<and> unat (sha256 toy_lib (py_str toy_lib
        (block_doc (hd (blocks (reset toy_lib ''t'' (ledger_init []))))) @ str_int 3))
       < 2 ^ nat (256 - 4)
   \<and> \<not> unat (sha256 toy_lib (py_str toy_lib
        (block_doc (hd (blocks (reset toy_lib ''t'' (ledger_init []))))) @ str_int 2))
       < 2 ^ nat (256 - 4)"
proof -
  let ?b = "block_doc (hd (blocks (reset toy_lib ''t'' (ledger_init []))))"
  have e: "calculate_nonce toy_lib ?b 4 = Inr (Some 3)"
    by (rule toy_nonce_4)
  have "(0::int) \<le> 4" and "(4::int) \<le> 256" by simp_all
  from calculate_nonce_first_qualifying [OF this, of toy_lib ?b] e
  have "(3::nat) < 2 ^ 32
      \<and> unat (sha256 toy_lib (py_str toy_lib ?b @ str_int (int 3))) < 2 ^ nat (256 - 4)
      \<and> (\<forall>m<3. \<not> unat (sha256 toy_lib (py_str toy_lib ?b @ str_int (int m))) < 2 ^ nat (256 - 4))"
    by blast
  then have "(3::nat) < 2 ^ 32
      \<and> unat (sha256 toy_lib (py_str toy_lib ?b @ str_int (int 3))) < 2 ^ nat (256 - 4)
      \<and> \<not> unat (sha256 toy_lib (py_str toy_lib ?b @ str_int (int 2))) < 2 ^ nat (256 - 4)"
    by (metis (no_types) lessI numeral_3_eq_3 numeral_2_eq_2)
  with e show ?thesis by simp
qed

section \<open>The outcomes of mining\<close>

lemma mine_empty:
  "get_last_block st = None \<Longrightarrow> mine_for_next_block lib t0 t1 now st = Raised TypeError st"
  by (simp add: mine_for_next_block_def)

lemma mine_not_found:
  assumes "get_last_block st = Some L"
    and "calculate_nonce lib (block_doc L) (difficulty_bits L) = Inr None"
  shows "mine_for_next_block lib t0 t1 now st =
     (if t1 - t0 > 0
      then Raised TypeError (st\<lparr>elapsed_time := FloatNum (t1 - t0)\<rparr>)
      else Done (snd (generate_next_block lib now None None
             (add_transaction lib ''00000000000000000000x0'' ''00000000000000000000x1''
                (calculate_block_reward st) (st\<lparr>elapsed_time := FloatNum (t1 - t0)\<rparr>)))))"
  using assms by (simp add: mine_for_next_block_def Let_def)

lemma mine_found:
  assumes "get_last_block st = Some L"
    and "calculate_nonce lib (block_doc L) (difficulty_bits L) = Inr (Some n)"
  shows "mine_for_next_block lib t0 t1 now st =
     Done (snd (generate_next_block lib now (Some (int n)) None
             (add_transaction lib ''00000000000000000000x0'' ''00000000000000000000x1''
                (calculate_block_reward st)
                (if t1 - t0 > 0
                 then st\<lparr>elapsed_time := FloatNum (t1 - t0),
                         hash_power := FloatNum (of_nat n / (t1 - t0))\<rparr>
                 else st\<lparr>elapsed_time := FloatNum (t1 - t0)\<rparr>))))"
  using assms by (simp add: mine_for_next_block_def Let_def)

lemma blocks_generate_next_block:
  "blocks (snd (generate_next_block lib now n prev st)) =
     blocks st @ [fst (generate_next_block lib now n prev st)]"
  by (simp add: generate_next_block_def Let_def)

lemma new_block_fields:
  "height (fst (generate_next_block lib now n prev st)) = int (length (blocks st)) + 1"
  "block_reward (fst (generate_next_block lib now n prev st)) = calculate_block_reward st"
  "difficulty_bits (fst (generate_next_block lib now n prev st)) = calculate_difficulty_bits st"
  "difficulty (fst (generate_next_block lib now n prev st)) = calculate_difficulty st"
  "nonce (fst (generate_next_block lib now n prev st)) = n"
  by (simp_all add: generate_next_block_def Let_def get_length_def)

lemma blocks_add_transaction: "blocks (add_transaction lib s r a st) = blocks st"
  by (simp add: add_transaction_def Let_def)

lemma blocks_reset:
  "blocks (reset lib now st) = [fst (generate_next_block lib now (Some 0) None (st\<lparr>blocks := []\<rparr>))]"
  by (simp add: reset_def generate_genesis_block_def blocks_generate_next_block)

lemma blocks_mine_cases:
  "blocks (outcome_state (mine_for_next_block lib t0 t1 now st)) = blocks st
   \<or> (\<exists>n st2. blocks st2 = blocks st
         \<and> outcome_state (mine_for_next_block lib t0 t1 now st) =
             snd (generate_next_block lib now n None
                    (add_transaction lib ''00000000000000000000x0'' ''00000000000000000000x1''
                       (calculate_block_reward st) st2)))"
proof (cases "get_last_block st")
  case None
  then show ?thesis by (simp add: mine_empty)
next
  case (Some L)
  obtain r where r: "calculate_nonce lib (block_doc L) (difficulty_bits L) = Inr r"
    using calculate_nonce_no_error by blast
  show ?thesis
  proof (cases r)
    case None
    show ?thesis
    proof (cases "t1 - t0 > 0")
      case True
      then show ?thesis
        using mine_not_found [OF Some r [unfolded None], of t0 t1 now] by simp
    next
      case False
      let ?st2 = "st\<lparr>elapsed_time := FloatNum (t1 - t0)\<rparr>"
      have "blocks ?st2 = blocks st" by simp
      moreover have "outcome_state (mine_for_next_block lib t0 t1 now st) =
          snd (generate_next_block lib now None None
            (add_transaction lib ''00000000000000000000x0'' ''00000000000000000000x1''
               (calculate_block_reward st) ?st2))"
        using False mine_not_found [OF Some r [unfolded None], of t0 t1 now] by simp
      ultimately show ?thesis by blast
    qed
  next
    case (Some n)
    let ?st2 = "if t1 - t0 > 0
                 then st\<lparr>elapsed_time := FloatNum (t1 - t0),
                         hash_power := FloatNum (of_nat n / (t1 - t0))\<rparr>
                 else st\<lparr>elapsed_time := FloatNum (t1 - t0)\<rparr>"
    have "blocks ?st2 = blocks st" by simp
    moreover have "outcome_state (mine_for_next_block lib t0 t1 now st) =
        snd (generate_next_block lib now (Some (int n)) None
          (add_transaction lib ''00000000000000000000x0'' ''00000000000000000000x1''
             (calculate_block_reward st) ?st2))"
      using mine_found [OF \<open>get_last_block st = Some L\<close> r [unfolded Some], of t0 t1 now]
      by simp
    ultimately show ?thesis by blast
  qed
qed

lemma mine_done_nonce:
  assumes "get_last_block st = Some L"
    and "mine_for_next_block lib t0 t1 now st = Done st'"
  shows "\<exists>r. calculate_nonce lib (block_doc L) (difficulty_bits L) = Inr r
            \<and> nonce (last (blocks st')) = map_option int r"
proof -
  obtain r where r: "calculate_nonce lib (block_doc L) (difficulty_bits L) = Inr r"
    using calculate_nonce_no_error by blast
  have "nonce (last (blocks st')) = map_option int r"
  proof (cases r)
    case None
    with mine_not_found [OF assms(1) r [unfolded None], of t0 t1 now] assms(2) show ?thesis
      by (auto simp: blocks_generate_next_block new_block_fields split: if_splits)
  next
    case (Some n)
    with mine_found [OF assms(1) r [unfolded Some], of t0 t1 now] assms(2) show ?thesis
      by (auto simp: blocks_generate_next_block new_block_fields)
  qed
  with r show ?thesis by blast
qed

section \<open>The invariant of a chain\<close>

lemma find_last_height:
  assumes "\<forall>i<length bs. height (bs ! i) = int i + 1" and "bs \<noteq> []"
  shows "find (\<lambda>b. height b = int (length bs)) bs = Some (last bs)"
proof -
  let ?k = "length bs - 1"
  from assms(2) have k: "?k < length bs" by simp
  have "height (bs ! ?k) = int (length bs)"
    using assms(1) k by simp
  moreover have "last bs = bs ! ?k"
    using assms(2) by (simp add: last_conv_nth)
  moreover have "\<forall>j<?k. \<not> height (bs ! j) = int (length bs)"
    using assms(1) by auto
  ultimately show ?thesis
    using k unfolding find_Some_iff by blast
qed

lemma get_last_block_empty: "blocks st = [] \<Longrightarrow> get_last_block st = None"
  by (simp add: get_last_block_def find_one_height_def)

lemma get_last_block_last:
  "chain_inv (blocks st) \<Longrightarrow> blocks st \<noteq> [] \<Longrightarrow> get_last_block st = Some (last (blocks st))"
  by (simp add: get_last_block_def find_one_height_def get_length_def chain_inv_def find_last_height)

lemma get_last_block_blocks:
  "blocks a = blocks b \<Longrightarrow> get_last_block a = get_last_block b"
  by (simp add: get_last_block_def get_length_def)

lemma last_fields:
  assumes "chain_inv bs" and "bs \<noteq> []"
  shows "height (last bs) = int (length bs)"
    and "block_reward (last bs) = reward_at (length bs)"
    and "difficulty_bits (last bs) = int ((length bs - 1) div 100)"
    and "difficulty (last bs) = IntNum (2 ^ ((length bs - 1) div 100))"
proof -
  let ?k = "length bs - 1"
  from assms(2) have k: "?k < length bs" and l: "last bs = bs ! ?k" and s: "Suc ?k = length bs"
    by (simp_all add: last_conv_nth)
  from assms(1) k have "height (bs ! ?k) = int ?k + 1 \<and> block_reward (bs ! ?k) = reward_at (Suc ?k)
      \<and> difficulty_bits (bs ! ?k) = int (?k div 100) \<and> difficulty (bs ! ?k) = IntNum (2 ^ (?k div 100))"
    unfolding chain_inv_def by blast
  then show "height (last bs) = int (length bs)"
    and "block_reward (last bs) = reward_at (length bs)"
    and "difficulty_bits (last bs) = int ((length bs - 1) div 100)"
    and "difficulty (last bs) = IntNum (2 ^ ((length bs - 1) div 100))"
    using l s assms(2) by simp_all
qed

lemma next_fields_empty:
  assumes "blocks st = []"
  shows "calculate_block_reward st = IntNum 50"
    and "calculate_difficulty_bits st = 0"
    and "calculate_difficulty st = IntNum 1"
  using assms
  by (simp_all add: calculate_block_reward_def calculate_difficulty_bits_def
        calculate_difficulty_def get_last_block_empty init_reward_def)

lemma bits_step_boundary:
  assumes "0 < k" and "int k mod 100 = 0"
  shows "int ((k - 1) div 100) + 1 = int (k div 100)"
proof -
  from assms(1) obtain m where m: "k = Suc m" by (cases k) auto
  from assms(2) have "int (k mod 100) = 0" by (simp add: zmod_int)
  then have "Suc m mod 100 = 0" using m by simp
  then have "Suc m div 100 = Suc (m div 100)" by (simp add: div_Suc)
  with m show ?thesis by simp
qed

lemma bits_step_inside:
  assumes "0 < k" and "int k mod 100 \<noteq> 0"
  shows "(k - 1) div 100 = k div 100"
proof -
  from assms(1) obtain m where m: "k = Suc m" by (cases k) auto
  from assms(2) have "int (k mod 100) \<noteq> 0" by (simp add: zmod_int)
  then have "Suc m mod 100 \<noteq> 0" using m by simp
  then have "Suc m div 100 = m div 100" by (simp add: div_Suc)
  with m show ?thesis by simp
qed

lemma next_fields_last:
  assumes "chain_inv (blocks st)" and "blocks st \<noteq> []"
  shows "calculate_block_reward st = reward_at (Suc (length (blocks st)))"
    and "calculate_difficulty_bits st = int (length (blocks st) div 100)"
    and "calculate_difficulty st = IntNum (2 ^ (length (blocks st) div 100))"
proof -
  let ?k = "length (blocks st)"
  from assms(2) have k: "0 < ?k" by simp
  note lb = get_last_block_last [OF assms] and lf = last_fields [OF assms]
  show "calculate_block_reward st = reward_at (Suc ?k)"
    using k by (simp add: calculate_block_reward_def lb lf Let_def
        reward_at.simps [of "Suc ?k"] reward_step_def block_reward_rate_def)
  show "calculate_difficulty_bits st = int (?k div 100)"
  proof (cases "int ?k mod 100 = 0")
    case True
    with k have "int ((?k - 1) div 100) + 1 = int (?k div 100)" by (rule bits_step_boundary)
    with True show ?thesis
      by (simp add: calculate_difficulty_bits_def lb lf(1,3) Let_def difficulty_bits_block_rate_def)
  next
    case False
    with k have "(?k - 1) div 100 = ?k div 100" by (rule bits_step_inside)
    with False show ?thesis
      by (simp add: calculate_difficulty_bits_def lb lf(1,3) Let_def difficulty_bits_block_rate_def)
  qed
  show "calculate_difficulty st = IntNum (2 ^ (?k div 100))"
  proof (cases "int ?k mod 100 = 0")
    case True
    with k have "int ((?k - 1) div 100) + 1 = int (?k div 100)" by (rule bits_step_boundary)
    then have "py_pow2 (int ((?k - 1) div 100) + 1) = IntNum (2 ^ (?k div 100))"
      by (simp add: py_pow2_def)
    with True show ?thesis
      by (simp add: calculate_difficulty_def lb lf(1,3,4) Let_def difficulty_block_rate_def)
  next
    case False
    with k have "(?k - 1) div 100 = ?k div 100" by (rule bits_step_inside)
    with False show ?thesis
      by (simp add: calculate_difficulty_def lb lf(1,3,4) Let_def difficulty_block_rate_def)
  qed
qed

lemma chain_inv_snoc:
  assumes "chain_inv bs"
    and "height b = int (length bs) + 1"
    and "block_reward b = reward_at (Suc (length bs))"
    and "difficulty_bits b = int (length bs div 100)"
    and "difficulty b = IntNum (2 ^ (length bs div 100))"
  shows "chain_inv (bs @ [b])"
  unfolding chain_inv_def
proof (intro allI impI)
  fix i assume "i < length (bs @ [b])"
  then consider "i < length bs" | "i = length bs" by fastforce
  then show "height ((bs @ [b]) ! i) = int i + 1
        \<and> block_reward ((bs @ [b]) ! i) = reward_at (Suc i)
        \<and> difficulty_bits ((bs @ [b]) ! i) = int (i div 100)
        \<and> difficulty ((bs @ [b]) ! i) = IntNum (2 ^ (i div 100))"
  proof cases
    case 1
    with assms(1) show ?thesis
      unfolding chain_inv_def by (simp add: nth_append)
  next
    case 2
    with assms(2-5) show ?thesis by (simp add: nth_append)
  qed
qed

lemma chain_inv_generate_next_block:
  assumes "chain_inv (blocks st)"
  shows "chain_inv (blocks (snd (generate_next_block lib now n prev st)))"
proof -
  let ?b = "fst (generate_next_block lib now n prev st)"
  have "chain_inv (blocks st @ [?b])"
  proof (rule chain_inv_snoc [OF assms])
    show "height ?b = int (length (blocks st)) + 1"
      by (rule new_block_fields)
    show "block_reward ?b = reward_at (Suc (length (blocks st)))"
      using assms
      by (cases "blocks st = []")
         (simp_all add: new_block_fields next_fields_empty next_fields_last
            reward_at.simps [of "Suc 0"])
    show "difficulty_bits ?b = int (length (blocks st) div 100)"
      using assms
      by (cases "blocks st = []")
         (simp_all add: new_block_fields next_fields_empty next_fields_last)
    show "difficulty ?b = IntNum (2 ^ (length (blocks st) div 100))"
      using assms
      by (cases "blocks st = []")
         (simp_all add: new_block_fields next_fields_empty next_fields_last)
  qed
  then show ?thesis by (simp only: blocks_generate_next_block)
qed

lemma chain_inv_reset: "chain_inv (blocks (reset lib now st))"
proof -
  have "chain_inv (blocks (st\<lparr>blocks := []\<rparr>))" by (simp add: chain_inv_def)
  then show ?thesis
    unfolding reset_def generate_genesis_block_def by (rule chain_inv_generate_next_block)
qed

lemma chain_inv_add_transaction:
  "chain_inv (blocks st) \<Longrightarrow> chain_inv (blocks (add_transaction lib s r a st))"
  by (simp add: blocks_add_transaction)

lemma chain_inv_mine:
  assumes "chain_inv (blocks st)"
  shows "chain_inv (blocks (outcome_state (mine_for_next_block lib t0 t1 now st)))"
proof -
  from blocks_mine_cases [of lib t0 t1 now st]
  consider "blocks (outcome_state (mine_for_next_block lib t0 t1 now st)) = blocks st"
    | n st2 where "blocks st2 = blocks st"
        "outcome_state (mine_for_next_block lib t0 t1 now st) =
           snd (generate_next_block lib now n None
                  (add_transaction lib ''00000000000000000000x0'' ''00000000000000000000x1''
                     (calculate_block_reward st) st2))"
    by blast
  then show ?thesis
  proof cases
    case 1
    with assms show ?thesis by simp
  next
    case 2
    from assms 2(1) have "chain_inv (blocks (add_transaction lib ''00000000000000000000x0''
        ''00000000000000000000x1'' (calculate_block_reward st) st2))"
      by (simp add: blocks_add_transaction)
    then show ?thesis
      unfolding 2(2) by (rule chain_inv_generate_next_block)
  qed
qed

lemma chain_inv_apply_op:
  "chain_inv (blocks st) \<Longrightarrow> chain_inv (blocks (apply_op lib st x))"
  by (cases x)
     (simp_all add: chain_inv_reset chain_inv_add_transaction chain_inv_mine
        chain_inv_generate_next_block)

lemma chain_inv_run_ops:
  "chain_inv (blocks st) \<Longrightarrow> chain_inv (blocks (run_ops lib st ops))"
  unfolding run_ops_def
  by (induction ops arbitrary: st) (simp_all add: chain_inv_apply_op)

lemma chain_inv_grown_chain: "chain_inv (grown_chain lib now st ops)"
  unfolding grown_chain_def by (rule chain_inv_run_ops) (rule chain_inv_reset)

lemma in_chainE:
  assumes "chain_inv bs" and "b \<in> set bs"
  obtains i where "i < length bs" and "b = bs ! i" and "height b = int i + 1"
    and "block_reward b = reward_at (Suc i)"
    and "difficulty_bits b = int (i div 100)"
    and "difficulty b = IntNum (2 ^ (i div 100))"
proof -
  from assms(2) obtain i where i: "i < length bs" "b = bs ! i"
    by (auto simp: in_set_conv_nth)
  with assms(1) have "height b = int i + 1 \<and> block_reward b = reward_at (Suc i)
      \<and> difficulty_bits b = int (i div 100) \<and> difficulty b = IntNum (2 ^ (i div 100))"
    unfolding chain_inv_def by blast
  with i that show thesis by blast
qed

lemma grown_nth:
  assumes "i < length (grown_chain lib now st ops)"
  shows "height (grown_chain lib now st ops ! i) = int i + 1"
    and "block_reward (grown_chain lib now st ops ! i) = reward_at (i + 1)"
    and "difficulty_bits (grown_chain lib now st ops ! i) = int (i div 100)"
    and "difficulty (grown_chain lib now st ops ! i) = IntNum (2 ^ (i div 100))"
  using chain_inv_grown_chain [of lib now st ops] assms
  unfolding chain_inv_def by simp_all

subsection \<open>Chains of a given length\<close>

lemma mine_length_found:
  assumes "chain_inv (blocks st)" and "blocks st \<noteq> []"
    and "calculate_nonce lib (block_doc (last (blocks st)))
           (difficulty_bits (last (blocks st))) = Inr (Some n)"
  shows "length (blocks (outcome_state (mine_for_next_block lib t0 t1 now st)))
           = length (blocks st) + 1"
proof -
  have lb: "get_last_block st = Some (last (blocks st))"
    using assms(1,2) by (rule get_last_block_last)
  from mine_found [OF lb assms(3), of t0 t1 now] show ?thesis
    by (simp add: blocks_generate_next_block blocks_add_transaction)
qed

lemma mine_length_low:
  assumes "chain_inv (blocks st)" and "blocks st \<noteq> []" and "length (blocks st) \<le> 100"
  shows "length (blocks (outcome_state (mine_for_next_block lib t0 t1 now st)))
           = length (blocks st) + 1"
proof -
  have "difficulty_bits (last (blocks st)) = int ((length (blocks st) - 1) div 100)"
    using assms(1,2) by (rule last_fields)
  moreover from assms(2,3) have "(length (blocks st) - 1) div 100 = 0" by simp
  ultimately have "difficulty_bits (last (blocks st)) = 0" by simp
  then have "calculate_nonce lib (block_doc (last (blocks st)))
      (difficulty_bits (last (blocks st))) = Inr (Some 0)"
    by (simp add: calculate_nonce_bits_0)
  with assms(1,2) show ?thesis by (rule mine_length_found)
qed

lemma mines_length_low:
  "chain_inv (blocks st) \<Longrightarrow> blocks st \<noteq> [] \<Longrightarrow> length (blocks st) + k \<le> 101 \<Longrightarrow>
     length (blocks (run_ops lib st (replicate k (Mine t0 t1 now)))) = length (blocks st) + k"
proof (induction k arbitrary: st)
  case 0
  show ?case by (simp add: run_ops_def)
next
  case (Suc k)
  let ?st = "apply_op lib st (Mine t0 t1 now)"
  have l: "length (blocks ?st) = length (blocks st) + 1"
    using Suc.prems by (simp add: mine_length_low)
  have "chain_inv (blocks ?st)"
    using Suc.prems(1) by (rule chain_inv_apply_op)
  moreover from l have "blocks ?st \<noteq> []" by auto
  moreover from l Suc.prems(3) have "length (blocks ?st) + k \<le> 101" by linarith
  ultimately have "length (blocks (run_ops lib ?st (replicate k (Mine t0 t1 now))))
      = length (blocks ?st) + k"
    by (rule Suc.IH)
  with l show ?case by (simp add: run_ops_def)
qed

lemma bits_bound: "n \<le> 25000 \<Longrightarrow> int ((n - 1) div 100) \<le> 256"
proof -
  assume "n \<le> 25000"
  then have "n - 1 \<le> 25000" by linarith
  then have "(n - 1) div 100 \<le> 25000 div 100" by (rule div_le_mono)
  then show ?thesis by simp
qed

lemma toy_mine_length:
  assumes "chain_inv (blocks st)" and "blocks st \<noteq> []" and "length (blocks st) \<le> 25000"
  shows "length (blocks (outcome_state (mine_for_next_block toy_lib t0 t1 now st)))
           = length (blocks st) + 1"
proof -
  let ?L = "last (blocks st)"
  have lb: "get_last_block st = Some ?L"
    using assms(1,2) by (rule get_last_block_last)
  have "difficulty_bits ?L = int ((length (blocks st) - 1) div 100)"
    using assms(1,2) by (rule last_fields)
  with assms(3) have "0 \<le> difficulty_bits ?L" and "difficulty_bits ?L \<le> 256"
    by (simp_all add: bits_bound)
  then obtain n where "calculate_nonce toy_lib (block_doc ?L) (difficulty_bits ?L) = Inr (Some n)"
    using toy_calculate_nonce_found by blast
  from mine_found [OF lb this, of t0 t1 now] show ?thesis
    by (simp add: blocks_generate_next_block blocks_add_transaction)
qed

lemma toy_mines_length:
  "chain_inv (blocks st) \<Longrightarrow> blocks st \<noteq> [] \<Longrightarrow> length (blocks st) + k \<le> 25001 \<Longrightarrow>
     length (blocks (run_ops toy_lib st (replicate k (Mine t0 t1 now)))) = length (blocks st) + k"
proof (induction k arbitrary: st)
  case 0
  show ?case by (simp add: run_ops_def)
next
  case (Suc k)
  let ?st = "apply_op toy_lib st (Mine t0 t1 now)"
  have l: "length (blocks ?st) = length (blocks st) + 1"
    using Suc.prems by (simp add: toy_mine_length)
  have "chain_inv (blocks ?st)"
    using Suc.prems(1) by (rule chain_inv_apply_op)
  moreover from l have "blocks ?st \<noteq> []" by auto
  moreover from l Suc.prems(3) have "length (blocks ?st) + k \<le> 25001" by linarith
  ultimately have "length (blocks (run_ops toy_lib ?st (replicate k (Mine t0 t1 now))))
      = length (blocks ?st) + k"
    by (rule Suc.IH)
  with l show ?case by (simp add: run_ops_def)
qed

lemma toy_grown_length:
  assumes "k \<le> 25000"
  shows "length (grown_chain toy_lib now st (replicate k (Mine t0 t1 now'))) = k + 1"
proof -
  let ?s = "reset toy_lib now st"
  have "chain_inv (blocks ?s)" by (rule chain_inv_reset)
  moreover have l: "length (blocks ?s) = 1" by (simp add: blocks_reset)
  moreover from l have "blocks ?s \<noteq> []" by auto
  moreover from l assms have "length (blocks ?s) + k \<le> 25001" by linarith
  ultimately have "length (blocks (run_ops toy_lib ?s (replicate k (Mine t0 t1 now'))))
      = length (blocks ?s) + k"
    by (intro toy_mines_length)
  with l show ?thesis by (simp add: grown_chain_def)
qed

lemma blocks_stuck_ledger:
  "chain_inv (blocks stuck_ledger)" "length (blocks stuck_ledger) = 101"
proof -
  let ?r = "reset stuck_lib ''t'' (ledger_init [])"
  let ?s = "run_ops stuck_lib ?r (replicate 100 (Mine 0 1 ''t''))"
  have b: "blocks stuck_ledger = blocks ?s"
    by (simp add: stuck_ledger_def blocks_add_transaction)
  have i: "chain_inv (blocks ?r)" by (rule chain_inv_reset)
  then have "chain_inv (blocks ?s)" by (rule chain_inv_run_ops)
  then show "chain_inv (blocks stuck_ledger)" by (simp only: b)
  have l: "length (blocks ?r) = 1" by (simp add: blocks_reset)
  then have "blocks ?r \<noteq> []" by auto
  moreover from l have "length (blocks ?r) + 100 \<le> 101" by simp
  ultimately have "length (blocks ?s) = length (blocks ?r) + 100"
    using i by (intro mines_length_low)
  with l show "length (blocks stuck_ledger) = 101" by (simp only: b)
qed

lemma stuck_ledger_last:
  "get_last_block stuck_ledger = Some (last (blocks stuck_ledger))"
  "difficulty_bits (last (blocks stuck_ledger)) = 1"
  "height (last (blocks stuck_ledger)) = 101"
proof -
  from blocks_stuck_ledger(2) have ne: "blocks stuck_ledger \<noteq> []" by auto
  show "get_last_block stuck_ledger = Some (last (blocks stuck_ledger))"
    using blocks_stuck_ledger(1) ne by (rule get_last_block_last)
  have "difficulty_bits (last (blocks stuck_ledger))
      = int ((length (blocks stuck_ledger) - 1) div 100)"
    using blocks_stuck_ledger(1) ne by (rule last_fields)
  then show "difficulty_bits (last (blocks stuck_ledger)) = 1"
    by (simp add: blocks_stuck_ledger(2))
  have "height (last (blocks stuck_ledger)) = int (length (blocks stuck_ledger))"
    using blocks_stuck_ledger(1) ne by (rule last_fields)
  then show "height (last (blocks stuck_ledger)) = 101"
    by (simp add: blocks_stuck_ledger(2))
qed

lemma transactions_stuck_ledger: "transactions stuck_ledger \<noteq> []"
  by (simp add: stuck_ledger_def add_transaction_def Let_def)

lemma reset_last_block:
  "get_last_block (reset lib now st)
     = Some (fst (generate_next_block lib now (Some 0) None (st\<lparr>blocks := []\<rparr>)))"
proof -
  have "get_last_block (reset lib now st) = Some (last (blocks (reset lib now st)))"
    by (rule get_last_block_last) (rule chain_inv_reset, simp add: blocks_reset)
  then show ?thesis by (simp add: blocks_reset)
qed

section \<open>The genesis block\<close>

text \<open>
  C1. After \<^verbatim>\<open>reset()\<close> the store holds one block, the genesis block, of height 1,
  difficulty bits 0, difficulty 1, reward 50 and nonce 0. Its \<open>previous_hash\<close> is not
  \<^verbatim>\<open>None\<close>: \<^verbatim>\<open>generate_next_block\<close> replaces the argument \<^verbatim>\<open>None\<close>, through
  \<^verbatim>\<open>or\<close>, by the hash of the JSON text of the missing last block.
\<close>

theorem reset_genesis_previous_hash:
  "\<exists>g. blocks (reset lib now st) = [g]
     \<and> height g = 1
     \<and> previous_hash g = Some (hexdigest (sha256 lib (json_dumps lib PyNone)))
     \<and> previous_hash g \<noteq> None
     \<and> difficulty_bits g = 0
     \<and> difficulty g = IntNum 1
     \<and> block_reward g = IntNum 50
     \<and> nonce g = Some 0"
proof -
  let ?s = "st\<lparr>blocks := []\<rparr>"
  let ?g = "fst (generate_next_block lib now (Some 0) None ?s)"
  have e: "blocks ?s = []" by simp
  have "blocks (reset lib now st) = [?g]" by (rule blocks_reset)
  moreover have "height ?g = 1"
    by (simp add: new_block_fields)
  moreover have "previous_hash ?g = Some (hexdigest (sha256 lib (json_dumps lib PyNone)))"
    by (simp add: generate_next_block_def Let_def get_last_block_empty py_or_def
          hash_json_object_def)
  moreover have "difficulty_bits ?g = 0" "difficulty ?g = IntNum 1" "block_reward ?g = IntNum 50"
    by (simp_all add: new_block_fields next_fields_empty [OF e])
  moreover have "nonce ?g = Some 0"
    by (simp add: new_block_fields)
  ultimately show ?thesis by simp
qed

section \<open>What the search hashes\<close>

text \<open>
  C3, as the code has it. In a call of \<^verbatim>\<open>mine_for_next_block\<close> on a store whose last
  block is \<open>L\<close>, the string hashed for the trial \<open>n\<close> is \<^verbatim>\<open>str(L)\<close> followed by the
  decimal form of \<open>n\<close>; it does not depend on the pending pool. The nonce of the block
  that a successful call stores is the result of that search, and the search depends on
  the hash function only through its values on these strings.
\<close>

theorem mine_hashes_last_block:
  assumes "get_last_block st = Some L"
  shows "mine_pow_preimage lib st n = Some (py_str lib (block_doc L) @ str_int (int n))
    \<and> mine_pow_preimage lib (st\<lparr>transactions := pool\<rparr>) n = mine_pow_preimage lib st n
    \<and> (\<forall>st'. mine_for_next_block lib t0 t1 now st = Done st' \<longrightarrow>
          (\<exists>r. calculate_nonce lib (block_doc L) (difficulty_bits L) = Inr r
              \<and> nonce (last (blocks st')) = map_option int r))
    \<and> (py_str lib' = py_str lib
        \<and> (\<forall>m<2 ^ 32. sha256 lib' (py_str lib (block_doc L) @ str_int (int m))
                       = sha256 lib (py_str lib (block_doc L) @ str_int (int m)))
        \<longrightarrow> calculate_nonce lib' (block_doc L) d = calculate_nonce lib (block_doc L) d)"
proof -
  have a: "mine_pow_preimage lib st n = Some (py_str lib (block_doc L) @ str_int (int n))"
    using assms by (simp add: mine_pow_preimage_def pow_preimage_def)
  have "get_last_block (st\<lparr>transactions := pool\<rparr>) = get_last_block st"
    by (rule get_last_block_blocks) simp
  then have b: "mine_pow_preimage lib (st\<lparr>transactions := pool\<rparr>) n = mine_pow_preimage lib st n"
    by (simp add: mine_pow_preimage_def)
  have c: "\<exists>r. calculate_nonce lib (block_doc L) (difficulty_bits L) = Inr r
              \<and> nonce (last (blocks st')) = map_option int r"
    if "mine_for_next_block lib t0 t1 now st = Done st'" for st'
    using assms that by (rule mine_done_nonce)
  have d: "calculate_nonce lib' (block_doc L) d = calculate_nonce lib (block_doc L) d"
    if "py_str lib' = py_str lib
        \<and> (\<forall>m<2 ^ 32. sha256 lib' (py_str lib (block_doc L) @ str_int (int m))
                       = sha256 lib (py_str lib (block_doc L) @ str_int (int m)))"
  proof -
    from that have "\<forall>m<max_nonce. digest_int lib' (block_doc L) m = digest_int lib (block_doc L) m"
      by (simp add: digest_int_def pow_preimage_def max_nonce_def)
    then show ?thesis
      unfolding calculate_nonce_def by (rule calculate_nonce_from_cong)
  qed
  from a b c d show ?thesis by blast
qed

lemma toy_show_candidate:
  "toy_show (spec_candidate_doc lib now st) = ''block '' @ str_int (int (length (blocks st)) + 1)"
  by (simp add: spec_candidate_doc_def Let_def toy_show_def new_block_fields
        blocks_add_transaction)

text \<open>
  C3 as stated fails: after \<^verbatim>\<open>reset()\<close>, with a serialiser that shows the height, the
  string hashed for the nonce 0 is that of the stored block of height 1; the candidate of
  the specification is the block of height 2.
\<close>

theorem mine_hashes_candidate_counterexample:
  "mine_pow_preimage toy_lib (reset toy_lib ''t'' (ledger_init [])) 0 = Some ''block 10''
   \<and> spec_pow_preimage toy_lib ''t'' (reset toy_lib ''t'' (ledger_init [])) 0 = ''block 20''
   \<and> mine_pow_preimage toy_lib (reset toy_lib ''t'' (ledger_init [])) 0
       \<noteq> Some (spec_pow_preimage toy_lib ''t'' (reset toy_lib ''t'' (ledger_init [])) 0)"
proof -
  have "mine_pow_preimage toy_lib (reset toy_lib ''t'' (ledger_init [])) 0 = Some ''block 10''"
    by (simp add: mine_pow_preimage_def reset_last_block pow_preimage_def toy_lib_def
          toy_show_block_doc new_block_fields str_int_def str_nat_small)
  moreover have "spec_pow_preimage toy_lib ''t'' (reset toy_lib ''t'' (ledger_init [])) 0
      = ''block 20''"
    by (simp add: spec_pow_preimage_def toy_lib_def toy_show_candidate blocks_reset
          str_int_def str_nat_small str_nat_numeral digit_char_def)
  ultimately show ?thesis by simp
qed

text \<open>
  An instance: after \<^verbatim>\<open>reset()\<close> under \<open>toy_lib\<close>, the string hashed for the nonce 3.
\<close>

theorem mine_hashes_last_block_witness:
  "get_last_block (reset toy_lib ''t'' (ledger_init []))
     = Some (fst (generate_next_block toy_lib ''t'' (Some 0) None (ledger_init [])))
   \<and> mine_pow_preimage toy_lib (reset toy_lib ''t'' (ledger_init [])) 3 = Some ''block 13''"
proof -
  let ?g = "fst (generate_next_block toy_lib ''t'' (Some 0) None (ledger_init []))"
  have "ledger_init []\<lparr>blocks := []\<rparr> = ledger_init []"
    by (simp add: ledger_init_def)
  with reset_last_block [of toy_lib "''t''" "ledger_init []"]
  have l: "get_last_block (reset toy_lib ''t'' (ledger_init [])) = Some ?g" by simp
  have "py_str toy_lib (block_doc ?g) @ str_int (int 3) = ''block 13''"
    by (simp add: toy_lib_def toy_show_block_doc new_block_fields ledger_init_def
          str_int_def str_nat_small str_nat_numeral digit_char_def)
  with mine_hashes_last_block [OF l, of toy_lib 3] l show ?thesis by simp
qed

section \<open>The reward schedule\<close>

lemma reward_at_1: "reward_at (Suc 0) = IntNum 50"
  by (simp add: reward_at.simps [of "Suc 0"])

lemma reward_at_Suc: "0 < h \<Longrightarrow> reward_at (Suc h) = reward_step (reward_at h) (int h)"
  by (simp add: reward_at.simps [of "Suc h"])

lemma reward_step_keep:
  "1 \<le> num_val r \<Longrightarrow> h mod 1000 \<noteq> 0 \<Longrightarrow> reward_step r h = r"
  unfolding reward_step_def by (auto simp: not_less)

lemma reward_step_nonneg: "0 \<le> num_val r \<Longrightarrow> 0 \<le> num_val (reward_step r h)"
  unfolding reward_step_def by auto

lemma reward_step_le: "0 \<le> num_val r \<Longrightarrow> num_val (reward_step r h) \<le> num_val r"
  unfolding reward_step_def by auto

lemma reward_step_below_one: "num_val r < 1 \<Longrightarrow> reward_step r h = IntNum 0"
  unfolding reward_step_def by auto

lemma mod_1000_offset:
  assumes "0 < e" and "e < 1000"
  shows "int (1000 * k + e) mod 1000 \<noteq> 0"
proof -
  have "(1000 * k + e) mod 1000 = e mod 1000" by (rule mod_mult_self4)
  also have "\<dots> = e" using assms(2) by (rule mod_less)
  finally have "(1000 * k + e) mod 1000 \<noteq> 0" using assms(1) by linarith
  moreover have "int (1000 * k + e) mod 1000 = int ((1000 * k + e) mod 1000)"
    by (simp only: zmod_int of_nat_numeral)
  ultimately show ?thesis by linarith
qed

lemma mod_1000_boundary: "int (1000 * k + 1000) mod 1000 = 0"
proof -
  have "(1000 * k + 1000) mod 1000 = 1000 mod (1000::nat)" by (rule mod_mult_self4)
  then have "(1000 * k + 1000) mod 1000 = 0" by simp
  moreover have "int (1000 * k + 1000) mod 1000 = int ((1000 * k + 1000) mod 1000)"
    by (simp only: zmod_int of_nat_numeral)
  ultimately show ?thesis by linarith
qed

lemma reward_plateau_offset:
  assumes "reward_at (1000 * k + 1) = r" and "1 \<le> num_val r"
  shows "d < 1000 \<Longrightarrow> reward_at (1000 * k + 1 + d) = r"
proof (induction d)
  case 0
  with assms(1) show ?case by simp
next
  case (Suc d)
  then have ih: "reward_at (1000 * k + 1 + d) = r" by linarith
  from Suc.prems have e: "0 < d + 1" "d + 1 < 1000" by linarith+
  have "int (1000 * k + (d + 1)) mod 1000 \<noteq> 0"
    using e by (rule mod_1000_offset)
  then have "reward_step r (int (1000 * k + (d + 1))) = r"
    using assms(2) by (intro reward_step_keep)
  moreover have "reward_at (Suc (1000 * k + 1 + d)) =
      reward_step (reward_at (1000 * k + 1 + d)) (int (1000 * k + 1 + d))"
    by (rule reward_at_Suc) linarith
  moreover have "1000 * k + 1 + Suc d = Suc (1000 * k + 1 + d)" by linarith
  moreover have "1000 * k + 1 + d = 1000 * k + (d + 1)" by linarith
  ultimately show ?case using ih by (simp only:)
qed

lemma reward_plateau:
  assumes "reward_at (1000 * k + 1) = r" and "1 \<le> num_val r"
    and "1000 * k < h" and "h \<le> 1000 * k + 1000"
  shows "reward_at h = r"
proof -
  from assms(3,4) have "h - (1000 * k + 1) < 1000" by linarith
  from reward_plateau_offset [OF assms(1,2) this]
  have "reward_at (1000 * k + 1 + (h - (1000 * k + 1))) = r" .
  moreover have "1000 * k + 1 + (h - (1000 * k + 1)) = h" using assms(3) by linarith
  ultimately show ?thesis by (simp only:)
qed

lemma reward_halve:
  assumes "reward_at (1000 * k + 1) = r" and "1 < num_val r"
  shows "reward_at (1000 * (k + 1) + 1) = FloatNum (num_val r / 2)"
proof -
  from assms(2) have "1 \<le> num_val r" by linarith
  with assms(1) have p: "reward_at (1000 * k + 1000) = r"
    by (rule reward_plateau) linarith+
  have "reward_at (Suc (1000 * k + 1000)) =
      reward_step (reward_at (1000 * k + 1000)) (int (1000 * k + 1000))"
    by (rule reward_at_Suc) linarith
  moreover have "reward_step r (int (1000 * k + 1000)) = FloatNum (num_val r / 2)"
    using assms(2) mod_1000_boundary [of k] unfolding reward_step_def by auto
  moreover have "1000 * (k + 1) + 1 = Suc (1000 * k + 1000)" by (simp add: distrib_left)
  ultimately show ?thesis using p by (simp only:)
qed

lemma reward_at_1': "reward_at (1000 * 0 + 1) = IntNum 50"
  using reward_at_1 by simp

lemma reward_at_1001: "reward_at (1000 * 1 + 1) = FloatNum 25"
  using reward_halve [OF reward_at_1'] by simp

lemma reward_at_2001: "reward_at (1000 * 2 + 1) = FloatNum (25 / 2)"
  using reward_halve [OF reward_at_1001] by simp

lemma reward_at_3001: "reward_at (1000 * 3 + 1) = FloatNum (25 / 4)"
  using reward_halve [OF reward_at_2001] by simp

lemma reward_at_4001: "reward_at (1000 * 4 + 1) = FloatNum (25 / 8)"
  using reward_halve [OF reward_at_3001] by simp

lemma reward_at_5001: "reward_at (1000 * 5 + 1) = FloatNum (25 / 16)"
  using reward_halve [OF reward_at_4001] by simp

lemma reward_at_6001: "reward_at (1000 * 6 + 1) = FloatNum (25 / 32)"
  using reward_halve [OF reward_at_5001] by simp

lemma reward_at_first_thousand: "0 < h \<Longrightarrow> h \<le> 1000 \<Longrightarrow> reward_at h = IntNum 50"
  using reward_plateau [OF reward_at_1', of h] by simp

lemma reward_at_second_thousand: "1000 < h \<Longrightarrow> h \<le> 2000 \<Longrightarrow> reward_at h = FloatNum 25"
  using reward_plateau [OF reward_at_1001, of h] by simp

lemma reward_at_nonneg: "0 \<le> num_val (reward_at h)"
proof (induction h)
  case 0
  show ?case by (simp add: reward_at.simps [of 0])
next
  case (Suc h)
  show ?case
  proof (cases "h = 0")
    case True
    then show ?thesis by (simp add: reward_at_1)
  next
    case False
    with Suc show ?thesis by (simp add: reward_at_Suc reward_step_nonneg)
  qed
qed

lemma reward_at_antimono:
  assumes "0 < i" and "i \<le> j"
  shows "num_val (reward_at j) \<le> num_val (reward_at i)"
  using assms(2)
proof (induction j rule: dec_induct)
  case base
  show ?case by simp
next
  case (step n)
  from assms(1) step.hyps(1) have "0 < n" by simp
  then have "num_val (reward_at (Suc n)) \<le> num_val (reward_at n)"
    by (simp add: reward_at_Suc reward_step_le reward_at_nonneg)
  with step.IH show ?case by simp
qed

lemma reward_at_zero_after:
  assumes "0 < i" and "num_val (reward_at i) < 1" and "i < j"
  shows "reward_at j = IntNum 0"
proof -
  from assms(3) have "Suc i \<le> j" by simp
  then show ?thesis
  proof (induction j rule: dec_induct)
    case base
    from assms(1,2) show ?case by (simp add: reward_at_Suc reward_step_below_one)
  next
    case (step n)
    from step.hyps(1) have "0 < n" by simp
    with step.IH show ?case by (simp add: reward_at_Suc reward_step_below_one)
  qed
qed

text \<open>
  C4, as the code has it. In a chain grown from the genesis block, the reward is 50 at
  heights 1 to 1000, 25 at heights 1001 to 2000 and 12.5 at height 2001: a reward is
  halved in the block that follows a height divisible by 1000.
\<close>

theorem reward_schedule:
  assumes "b \<in> set (grown_chain lib now st ops)"
  shows "1 \<le> height b
    \<and> (height b \<le> 1000 \<longrightarrow> block_reward b = IntNum 50)
    \<and> (1001 \<le> height b \<and> height b \<le> 2000 \<longrightarrow> block_reward b = FloatNum 25)
    \<and> (height b = 2001 \<longrightarrow> block_reward b = FloatNum (25 / 2))"
proof -
  from chain_inv_grown_chain assms obtain i
    where h: "height b = int i + 1" and r: "block_reward b = reward_at (Suc i)"
    by (rule in_chainE)
  from h have "1 \<le> height b" by linarith
  moreover have "block_reward b = IntNum 50" if "height b \<le> 1000"
  proof -
    from that h have "0 < Suc i" "Suc i \<le> 1000" by linarith+
    then show ?thesis unfolding r by (rule reward_at_first_thousand)
  qed
  moreover have "block_reward b = FloatNum 25" if "1001 \<le> height b \<and> height b \<le> 2000"
  proof -
    from that h have "1000 < Suc i" "Suc i \<le> 2000" by linarith+
    then show ?thesis unfolding r by (rule reward_at_second_thousand)
  qed
  moreover have "block_reward b = FloatNum (25 / 2)" if "height b = 2001"
  proof -
    from that h have "Suc i = 1000 * 2 + 1" by linarith
    then show ?thesis unfolding r by (simp only: reward_at_2001)
  qed
  ultimately show ?thesis by blast
qed

text \<open>
  C4 as stated fails: after \<^verbatim>\<open>reset()\<close> and 999 calls of \<^verbatim>\<open>mine_for_next_block\<close>
  the block of height 1000 carries the reward 50, not 25.
\<close>

theorem reward_at_height_1000_counterexample:
  "height (grown_chain toy_lib ''t'' (ledger_init []) (replicate 999 (Mine 0 1 ''t'')) ! 999) = 1000
   \<and> block_reward (grown_chain toy_lib ''t'' (ledger_init []) (replicate 999 (Mine 0 1 ''t'')) ! 999)
       = IntNum 50
   \<and> num_val (block_reward
        (grown_chain toy_lib ''t'' (ledger_init []) (replicate 999 (Mine 0 1 ''t'')) ! 999)) \<noteq> 25"
proof -
  let ?c = "grown_chain toy_lib ''t'' (ledger_init []) (replicate 999 (Mine 0 1 ''t''))"
  have "length ?c = 999 + 1" by (rule toy_grown_length) simp
  then have i: "999 < length ?c" by linarith
  have "height (?c ! 999) = int 999 + 1" using i by (rule grown_nth)
  moreover have "block_reward (?c ! 999) = reward_at (999 + 1)" using i by (rule grown_nth)
  moreover have "reward_at (999 + 1) = IntNum 50" by (rule reward_at_first_thousand) simp_all
  ultimately show ?thesis by simp
qed

text \<open>
  An instance: the block of height 1001 in the chain of 2001 blocks.
\<close>

theorem reward_schedule_witness:
  "grown_chain toy_lib ''t'' (ledger_init []) (replicate 2000 (Mine 0 1 ''t'')) ! 1000
     \<in> set (grown_chain toy_lib ''t'' (ledger_init []) (replicate 2000 (Mine 0 1 ''t'')))
   \<and> height (grown_chain toy_lib ''t'' (ledger_init []) (replicate 2000 (Mine 0 1 ''t'')) ! 1000)
       = 1001
   \<and> block_reward (grown_chain toy_lib ''t'' (ledger_init []) (replicate 2000 (Mine 0 1 ''t'')) ! 1000)
       = FloatNum 25"
proof -
  let ?c = "grown_chain toy_lib ''t'' (ledger_init []) (replicate 2000 (Mine 0 1 ''t''))"
  have "length ?c = 2000 + 1" by (rule toy_grown_length) simp
  then have i: "1000 < length ?c" by linarith
  then have m: "?c ! 1000 \<in> set ?c" by (rule nth_mem)
  have "height (?c ! 1000) = int 1000 + 1" using i by (rule grown_nth)
  then have h: "height (?c ! 1000) = 1001" by simp
  from reward_schedule [OF m] h have "block_reward (?c ! 1000) = FloatNum 25" by simp
  with m h show ?thesis by simp
qed

text \<open>
  C8. In a chain grown from the genesis block, the reward never increases with the
  height and is never negative, and once a block has a reward below 1 every later block
  has the reward 0.
\<close>

theorem reward_non_increasing:
  assumes "a \<in> set (grown_chain lib now st ops)"
    and "b \<in> set (grown_chain lib now st ops)"
    and "height a \<le> height b"
  shows "num_val (block_reward b) \<le> num_val (block_reward a)
    \<and> 0 \<le> num_val (block_reward a)
    \<and> (height a < height b \<and> num_val (block_reward a) < 1 \<longrightarrow> block_reward b = IntNum 0)"
proof -
  note inv = chain_inv_grown_chain [of lib now st ops]
  from inv assms(1) obtain i
    where ha: "height a = int i + 1" and ra: "block_reward a = reward_at (Suc i)"
    by (rule in_chainE)
  from inv assms(2) obtain j
    where hb: "height b = int j + 1" and rb: "block_reward b = reward_at (Suc j)"
    by (rule in_chainE)
  from assms(3) ha hb have le: "Suc i \<le> Suc j" by linarith
  have "num_val (block_reward b) \<le> num_val (block_reward a)"
    unfolding ra rb using le by (intro reward_at_antimono) simp_all
  moreover have "0 \<le> num_val (block_reward a)"
    unfolding ra by (rule reward_at_nonneg)
  moreover have "block_reward b = IntNum 0"
    if "height a < height b \<and> num_val (block_reward a) < 1"
  proof -
    from that ha hb have "Suc i < Suc j" by linarith
    moreover from that have "num_val (reward_at (Suc i)) < 1" unfolding ra by simp
    ultimately show ?thesis unfolding rb by (intro reward_at_zero_after [of "Suc i"]) simp_all
  qed
  ultimately show ?thesis by blast
qed

text \<open>
  An instance: in the chain of 6002 blocks, the reward 0.78125 at height 6001 is
  followed by the reward 0 at height 6002.
\<close>

theorem reward_non_increasing_witness:
  "grown_chain toy_lib ''t'' (ledger_init []) (replicate 6001 (Mine 0 1 ''t'')) ! 6000
     \<in> set (grown_chain toy_lib ''t'' (ledger_init []) (replicate 6001 (Mine 0 1 ''t'')))
   \<and> grown_chain toy_lib ''t'' (ledger_init []) (replicate 6001 (Mine 0 1 ''t'')) ! 6001
     \<in> set (grown_chain toy_lib ''t'' (ledger_init []) (replicate 6001 (Mine 0 1 ''t'')))
   \<and> height (grown_chain toy_lib ''t'' (ledger_init []) (replicate 6001 (Mine 0 1 ''t'')) ! 6000)
       = 6001
   \<and> height (grown_chain toy_lib ''t'' (ledger_init []) (replicate 6001 (Mine 0 1 ''t'')) ! 6001)
       = 6002
   \<and> block_reward (grown_chain toy_lib ''t'' (ledger_init []) (replicate 6001 (Mine 0 1 ''t'')) ! 6000)
       = FloatNum (25 / 32)
   \<and> block_reward (grown_chain toy_lib ''t'' (ledger_init []) (replicate 6001 (Mine 0 1 ''t'')) ! 6001)
       = IntNum 0"
proof -
  let ?c = "grown_chain toy_lib ''t'' (ledger_init []) (replicate 6001 (Mine 0 1 ''t''))"
  have "length ?c = 6001 + 1" by (rule toy_grown_length) simp
  then have i: "6000 < length ?c" and j: "6001 < length ?c" by linarith+
  from i have ma: "?c ! 6000 \<in> set ?c" by (rule nth_mem)
  from j have mb: "?c ! 6001 \<in> set ?c" by (rule nth_mem)
  have "height (?c ! 6000) = int 6000 + 1" using i by (rule grown_nth)
  then have ha: "height (?c ! 6000) = 6001" by simp
  have "height (?c ! 6001) = int 6001 + 1" using j by (rule grown_nth)
  then have hb: "height (?c ! 6001) = 6002" by simp
  have "block_reward (?c ! 6000) = reward_at (6000 + 1)" using i by (rule grown_nth)
  moreover have "reward_at (6000 + 1) = FloatNum (25 / 32)"
    using reward_at_6001 by simp
  ultimately have ra: "block_reward (?c ! 6000) = FloatNum (25 / 32)" by simp
  from ha hb have "height (?c ! 6000) \<le> height (?c ! 6001)" by simp
  from reward_non_increasing [OF ma mb this] ha hb ra
  have "block_reward (?c ! 6001) = IntNum 0" by simp
  with ma mb ha hb ra show ?thesis by simp
qed

section \<open>The difficulty schedule\<close>

lemma int_div_100: "int (i div 100) = (int i + 1 - 1) div 100"
  by (simp add: zdiv_int)

lemma bits_next:
  "int (Suc j div 100) = int (j div 100) + (if (int j + 1) mod 100 = 0 then 1 else 0)"
proof -
  have "(int j + 1) mod 100 = int (Suc j mod 100)"
    by (simp add: zmod_int add.commute)
  then have "(int j + 1) mod 100 = 0 \<longleftrightarrow> Suc j mod 100 = 0"
    by linarith
  then show ?thesis
    by (simp add: div_Suc)
qed

text \<open>
  C5, as the code has it. In a chain grown from the genesis block, the difficulty bits
  are 0 at heights 1 to 100 and 1 at heights 101 to 200, in general
  \<open>(height - 1) div 100\<close>; they never decrease with the height, and from a block to
  the next they grow by exactly 1 when the height of the first is divisible by 100 and
  stay the same otherwise.
\<close>

theorem difficulty_bits_schedule:
  assumes "b \<in> set (grown_chain lib now st ops)"
  shows "(height b \<le> 100 \<longrightarrow> difficulty_bits b = 0)
    \<and> (101 \<le> height b \<and> height b \<le> 200 \<longrightarrow> difficulty_bits b = 1)
    \<and> difficulty_bits b = (height b - 1) div 100
    \<and> (\<forall>a \<in> set (grown_chain lib now st ops).
          (height a \<le> height b \<longrightarrow> difficulty_bits a \<le> difficulty_bits b)
          \<and> (height b = height a + 1 \<longrightarrow>
                difficulty_bits b = difficulty_bits a + (if height a mod 100 = 0 then 1 else 0)))"
proof -
  note inv = chain_inv_grown_chain [of lib now st ops]
  from inv assms obtain i
    where h: "height b = int i + 1" and d: "difficulty_bits b = int (i div 100)"
    by (rule in_chainE)
  have c: "difficulty_bits b = (height b - 1) div 100"
    unfolding h d by (rule int_div_100)
  have lo: "difficulty_bits b = 0" if "height b \<le> 100"
  proof -
    from that h have "i < 100" by linarith
    then show ?thesis unfolding d by simp
  qed
  have hi: "difficulty_bits b = 1" if "101 \<le> height b \<and> height b \<le> 200"
  proof -
    from that h have "100 \<le> i" "i < 200" by linarith+
    then have "i div 100 = 1" by linarith
    then show ?thesis unfolding d by simp
  qed
  have pair: "(height a \<le> height b \<longrightarrow> difficulty_bits a \<le> difficulty_bits b)
      \<and> (height b = height a + 1 \<longrightarrow>
            difficulty_bits b = difficulty_bits a + (if height a mod 100 = 0 then 1 else 0))"
    if "a \<in> set (grown_chain lib now st ops)" for a
  proof -
    from inv that obtain j
      where ha: "height a = int j + 1" and da: "difficulty_bits a = int (j div 100)"
      by (rule in_chainE)
    have "difficulty_bits a \<le> difficulty_bits b" if "height a \<le> height b"
    proof -
      from that h ha have "j \<le> i" by linarith
      then have "j div 100 \<le> i div 100" by (rule div_le_mono)
      then show ?thesis unfolding d da by linarith
    qed
    moreover have "difficulty_bits b = difficulty_bits a + (if height a mod 100 = 0 then 1 else 0)"
      if "height b = height a + 1"
    proof -
      from that h ha have "i = Suc j" by linarith
      then show ?thesis unfolding d da ha by (simp only: bits_next)
    qed
    ultimately show ?thesis by blast
  qed
  from lo hi c pair show ?thesis by blast
qed

text \<open>
  C5 as stated fails: after \<^verbatim>\<open>reset()\<close> and 99 calls of \<^verbatim>\<open>mine_for_next_block\<close>
  the block of height 100 has 0 difficulty bits, not 1.
\<close>

theorem difficulty_bits_at_height_100_counterexample:
  "height (grown_chain toy_lib ''t'' (ledger_init []) (replicate 99 (Mine 0 1 ''t'')) ! 99) = 100
   \<and> difficulty_bits (grown_chain toy_lib ''t'' (ledger_init []) (replicate 99 (Mine 0 1 ''t'')) ! 99)
       = 0
   \<and> difficulty_bits (grown_chain toy_lib ''t'' (ledger_init []) (replicate 99 (Mine 0 1 ''t'')) ! 99)
       \<noteq> 1"
proof -
  let ?c = "grown_chain toy_lib ''t'' (ledger_init []) (replicate 99 (Mine 0 1 ''t''))"
  have "length ?c = 99 + 1" by (rule toy_grown_length) simp
  then have i: "99 < length ?c" by linarith
  have "height (?c ! 99) = int 99 + 1" using i by (rule grown_nth)
  moreover have "difficulty_bits (?c ! 99) = int (99 div 100)" using i by (rule grown_nth)
  ultimately show ?thesis by simp
qed

text \<open>
  An instance: the block of height 101 in the chain of 101 blocks.
\<close>

theorem difficulty_bits_schedule_witness:
  "grown_chain toy_lib ''t'' (ledger_init []) (replicate 100 (Mine 0 1 ''t'')) ! 100
     \<in> set (grown_chain toy_lib ''t'' (ledger_init []) (replicate 100 (Mine 0 1 ''t'')))
   \<and> height (grown_chain toy_lib ''t'' (ledger_init []) (replicate 100 (Mine 0 1 ''t'')) ! 100)
       = 101
   \<and> difficulty_bits (grown_chain toy_lib ''t'' (ledger_init []) (replicate 100 (Mine 0 1 ''t'')) ! 100)
       = 1"
proof -
  let ?c = "grown_chain toy_lib ''t'' (ledger_init []) (replicate 100 (Mine 0 1 ''t''))"
  have "length ?c = 100 + 1" by (rule toy_grown_length) simp
  then have i: "100 < length ?c" by linarith
  then have m: "?c ! 100 \<in> set ?c" by (rule nth_mem)
  have "height (?c ! 100) = int 100 + 1" using i by (rule grown_nth)
  then have h: "height (?c ! 100) = 101" by simp
  from difficulty_bits_schedule [OF m] h have "difficulty_bits (?c ! 100) = 1" by simp
  with m h show ?thesis by simp
qed

text \<open>
  C10. With both rates at 100, every block of a chain grown from the genesis block
  satisfies \<open>difficulty = 2 ^ difficulty_bits\<close>, although the two fields are computed by
  two separate recurrences.
\<close>

theorem difficulty_is_power_of_bits:
  assumes "b \<in> set (grown_chain lib now st ops)"
  shows "difficulty b = IntNum (2 ^ nat (difficulty_bits b))"
proof -
  from chain_inv_grown_chain assms obtain i
    where "difficulty_bits b = int (i div 100)" and "difficulty b = IntNum (2 ^ (i div 100))"
    by (rule in_chainE)
  then show ?thesis by simp
qed

text \<open>
  An instance: the block of height 251 has 2 difficulty bits and the difficulty 4.
\<close>

theorem difficulty_is_power_of_bits_witness:
  "grown_chain toy_lib ''t'' (ledger_init []) (replicate 250 (Mine 0 1 ''t'')) ! 250
     \<in> set (grown_chain toy_lib ''t'' (ledger_init []) (replicate 250 (Mine 0 1 ''t'')))
   \<and> difficulty_bits (grown_chain toy_lib ''t'' (ledger_init []) (replicate 250 (Mine 0 1 ''t'')) ! 250)
       = 2
   \<and> difficulty (grown_chain toy_lib ''t'' (ledger_init []) (replicate 250 (Mine 0 1 ''t'')) ! 250)
       = IntNum 4"
proof -
  let ?c = "grown_chain toy_lib ''t'' (ledger_init []) (replicate 250 (Mine 0 1 ''t''))"
  have "length ?c = 250 + 1" by (rule toy_grown_length) simp
  then have i: "250 < length ?c" by linarith
  then have m: "?c ! 250 \<in> set ?c" by (rule nth_mem)
  have "difficulty_bits (?c ! 250) = int (250 div 100)" using i by (rule grown_nth)
  then have d: "difficulty_bits (?c ! 250) = 2" by simp
  from difficulty_is_power_of_bits [OF m] d have "difficulty (?c ! 250) = IntNum 4" by simp
  with m d show ?thesis by simp
qed

section \<open>A search that finds nothing\<close>

text \<open>
  C7, as the code has it. When the search returns \<^verbatim>\<open>None\<close> and the measured elapsed
  time is positive, \<^verbatim>\<open>mine_for_next_block\<close> raises \<^verbatim>\<open>TypeError\<close> (from
  \<^verbatim>\<open>int(None)\<close>, in the estimate of the hash rate): no block is stored and the
  pending pool is what it was; only \<^verbatim>\<open>self.elapsed_time\<close> has changed.
\<close>

theorem mine_not_found_aborts:
  assumes "get_last_block st = Some L"
    and "calculate_nonce lib (block_doc L) (difficulty_bits L) = Inr None"
    and "start_time < end_time"
  shows "mine_for_next_block lib start_time end_time now st
           = Raised TypeError (st\<lparr>elapsed_time := FloatNum (end_time - start_time)\<rparr>)
    \<and> blocks (outcome_state (mine_for_next_block lib start_time end_time now st)) = blocks st
    \<and> transactions (outcome_state (mine_for_next_block lib start_time end_time now st))
        = transactions st"
  using assms(3) mine_not_found [OF assms(1,2), of start_time end_time now] by simp

text \<open>
  C7 as stated fails: when the second clock reading is not later than the first (the
  wall clock read by \<^verbatim>\<open>time()\<close> can be set back during the search), the hash rate
  is not estimated, nothing raises, and the call stores a block whose nonce is
  \<^verbatim>\<open>None\<close> and empties the pool.
\<close>

theorem mine_not_found_persists_counterexample:
  "map_option (\<lambda>L. calculate_nonce stuck_lib (block_doc L) (difficulty_bits L))
       (get_last_block stuck_ledger) = Some (Inr None)
   \<and> length (blocks stuck_ledger) = 101
   \<and> transactions stuck_ledger \<noteq> []
   \<and> (case mine_for_next_block stuck_lib 5 4 ''t'' stuck_ledger of
         Done st' \<Rightarrow>
           length (blocks st') = 102 \<and> nonce (last (blocks st')) = None \<and> transactions st' = []
       | Raised e st' \<Rightarrow> False)"
proof -
  let ?L = "last (blocks stuck_ledger)"
  let ?st' = "snd (generate_next_block stuck_lib ''t'' None None
        (add_transaction stuck_lib ''00000000000000000000x0'' ''00000000000000000000x1''
           (calculate_block_reward stuck_ledger)
           (stuck_ledger\<lparr>elapsed_time := FloatNum (4 - 5)\<rparr>)))"
  have n: "calculate_nonce stuck_lib (block_doc ?L) (difficulty_bits ?L) = Inr None"
    by (simp only: stuck_ledger_last(2) stuck_not_found)
  have "\<not> (0::rat) < 4 - 5" by simp
  with mine_not_found [OF stuck_ledger_last(1) n, of 5 4 "''t''"]
  have m: "mine_for_next_block stuck_lib 5 4 ''t'' stuck_ledger = Done ?st'"
    by (simp only: if_False)
  have "length (blocks ?st') = 102"
    by (simp add: blocks_generate_next_block blocks_add_transaction blocks_stuck_ledger(2))
  moreover have "nonce (last (blocks ?st')) = None"
    by (simp add: blocks_generate_next_block new_block_fields)
  moreover have "transactions ?st' = []"
    by (simp add: generate_next_block_def Let_def)
  ultimately show ?thesis
    by (simp only: m stuck_ledger_last(1) n blocks_stuck_ledger(2) outcome.case option.map)
       (simp add: transactions_stuck_ledger)
qed

text \<open>
  An instance: the same state, with one second between the two clock readings.
\<close>

theorem mine_not_found_aborts_witness:
  "get_last_block stuck_ledger = Some (last (blocks stuck_ledger))
   \<and> calculate_nonce stuck_lib (block_doc (last (blocks stuck_ledger)))
        (difficulty_bits (last (blocks stuck_ledger))) = Inr None
   \<and> mine_for_next_block stuck_lib 0 1 ''t'' stuck_ledger
        = Raised TypeError (stuck_ledger\<lparr>elapsed_time := FloatNum (1 - 0)\<rparr>)
   \<and> blocks (outcome_state (mine_for_next_block stuck_lib 0 1 ''t'' stuck_ledger))
        = blocks stuck_ledger
   \<and> transactions (outcome_state (mine_for_next_block stuck_lib 0 1 ''t'' stuck_ledger))
        = transactions stuck_ledger"
proof -
  let ?L = "last (blocks stuck_ledger)"
  have n: "calculate_nonce stuck_lib (block_doc ?L) (difficulty_bits ?L) = Inr None"
    by (simp only: stuck_ledger_last(2) stuck_not_found)
  have "(0::rat) < 1" by simp
  from mine_not_found_aborts [OF stuck_ledger_last(1) n this, of "''t''"] stuck_ledger_last(1) n
  show ?thesis by (intro conjI) blast+
qed

section \<open>Blocks sorted by a field\<close>

lemma sorted_wrt_sort_desc: "sorted_wrt (\<lambda>a b. key b \<le> key a) (sort_desc key xs)"
proof -
  have "sorted (map key (sort_key key xs))" by (rule sorted_sort_key)
  then have "sorted_wrt (\<lambda>a b. key a \<le> key b) (sort_key key xs)"
    by (simp only: sorted_map)
  then show ?thesis
    by (simp add: sort_desc_def sorted_wrt_rev)
qed

lemma limit_sort_desc:
  assumes "xs \<noteq> []" and "1 \<le> n"
  shows "limit n (sort_desc key xs) \<noteq> []"
    and "sorted_wrt (\<lambda>a b. key b \<le> key a) (limit n (sort_desc key xs))"
    and "set (limit n (sort_desc key xs)) \<subseteq> set xs"
proof -
  from assms(2) have l: "limit n (sort_desc key xs) = take (nat n) (sort_desc key xs)"
    by (simp add: limit_def)
  have "length (sort_desc key xs) = length xs" by (simp add: sort_desc_def)
  with assms(1) have "sort_desc key xs \<noteq> []" by auto
  moreover from assms(2) have "0 < nat n" by linarith
  ultimately show "limit n (sort_desc key xs) \<noteq> []"
    unfolding l by (cases "sort_desc key xs") (auto simp: take_Cons')
  show "sorted_wrt (\<lambda>a b. key b \<le> key a) (limit n (sort_desc key xs))"
    unfolding l by (rule sorted_wrt_take) (rule sorted_wrt_sort_desc)
  have "set (take (nat n) (sort_desc key xs)) \<subseteq> set (sort_desc key xs)"
    by (rule set_take_subset)
  then show "set (limit n (sort_desc key xs)) \<subseteq> set xs"
    unfolding l by (simp add: sort_desc_def)
qed

lemma get_top_blocks_other:
  "state \<notin> {''difficulty'', ''elapsed_time'', ''block_reward'', ''hash_power'', ''height'',
       ''nonce'', ''number_of_transaction''} \<Longrightarrow> get_top_blocks st state n = []"
  by (simp add: get_top_blocks_def)

lemma limit_sort_desc_subset: "set (limit n (sort_desc key xs)) \<subseteq> set xs"
  by (auto simp: limit_def sort_desc_def dest: in_set_takeD)

lemma set_if_subset:
  "set xs \<subseteq> S \<Longrightarrow> set ys \<subseteq> S \<Longrightarrow> set (if c then xs else ys) \<subseteq> S"
  by simp

lemma get_top_blocks_subset: "set (get_top_blocks st state n) \<subseteq> set (blocks st)"
  unfolding get_top_blocks_def
  by (intro set_if_subset limit_sort_desc_subset) simp

text \<open>
  C9, as the code has it. On a non-empty chain and for \<open>n \<ge> 1\<close>, \<^verbatim>\<open>get_top_blocks\<close>
  returns a non-empty list of stored blocks, in descending order of the field, for each
  of \<^verbatim>\<open>difficulty\<close>, \<^verbatim>\<open>elapsed_time\<close>, \<^verbatim>\<open>block_reward\<close>, \<^verbatim>\<open>hash_power\<close>,
  \<^verbatim>\<open>height\<close>, \<^verbatim>\<open>nonce\<close> and \<^verbatim>\<open>number_of_transaction\<close>, and the empty list
  for every other name.
\<close>

theorem get_top_blocks_fields:
  assumes "blocks st \<noteq> []" and "1 \<le> n"
  shows "get_top_blocks st ''difficulty'' n \<noteq> []
    \<and> sorted_wrt (\<lambda>a b. num_val (difficulty b) \<le> num_val (difficulty a))
         (get_top_blocks st ''difficulty'' n)
    \<and> get_top_blocks st ''elapsed_time'' n \<noteq> []
    \<and> sorted_wrt (\<lambda>a b. num_val (block.elapsed_time b) \<le> num_val (block.elapsed_time a))
         (get_top_blocks st ''elapsed_time'' n)
    \<and> get_top_blocks st ''block_reward'' n \<noteq> []
    \<and> sorted_wrt (\<lambda>a b. num_val (block_reward b) \<le> num_val (block_reward a))
         (get_top_blocks st ''block_reward'' n)
    \<and> get_top_blocks st ''hash_power'' n \<noteq> []
    \<and> sorted_wrt (\<lambda>a b. num_val (block.hash_power b) \<le> num_val (block.hash_power a))
         (get_top_blocks st ''hash_power'' n)
    \<and> get_top_blocks st ''height'' n \<noteq> []
    \<and> sorted_wrt (\<lambda>a b. height b \<le> height a) (get_top_blocks st ''height'' n)
    \<and> get_top_blocks st ''nonce'' n \<noteq> []
    \<and> sorted_wrt (\<lambda>a b. nonce b \<le> nonce a) (get_top_blocks st ''nonce'' n)
    \<and> get_top_blocks st ''number_of_transaction'' n \<noteq> []
    \<and> sorted_wrt (\<lambda>a b. number_of_transaction b \<le> number_of_transaction a)
         (get_top_blocks st ''number_of_transaction'' n)
    \<and> set (get_top_blocks st state n) \<subseteq> set (blocks st)
    \<and> (state \<notin> {''difficulty'', ''elapsed_time'', ''block_reward'', ''hash_power'', ''height'',
          ''nonce'', ''number_of_transaction''} \<longrightarrow> get_top_blocks st state n = [])"
proof -
  note l = limit_sort_desc [OF assms]
  have 1: "get_top_blocks st ''difficulty'' n
      = limit n (sort_desc (\<lambda>b. num_val (difficulty b)) (blocks st))"
    by (simp add: get_top_blocks_def)
  have 2: "get_top_blocks st ''elapsed_time'' n
      = limit n (sort_desc (\<lambda>b. num_val (block.elapsed_time b)) (blocks st))"
    by (simp add: get_top_blocks_def)
  have 3: "get_top_blocks st ''block_reward'' n
      = limit n (sort_desc (\<lambda>b. num_val (block_reward b)) (blocks st))"
    by (simp add: get_top_blocks_def)
  have 4: "get_top_blocks st ''hash_power'' n
      = limit n (sort_desc (\<lambda>b. num_val (block.hash_power b)) (blocks st))"
    by (simp add: get_top_blocks_def)
  have 5: "get_top_blocks st ''height'' n = limit n (sort_desc height (blocks st))"
    by (simp add: get_top_blocks_def)
  have 6: "get_top_blocks st ''nonce'' n = limit n (sort_desc nonce (blocks st))"
    by (simp add: get_top_blocks_def)
  have 7: "get_top_blocks st ''number_of_transaction'' n
      = limit n (sort_desc number_of_transaction (blocks st))"
    by (simp add: get_top_blocks_def)
  show ?thesis
    unfolding 1 2 3 4 5 6 7
    by (intro conjI impI l(1,2) get_top_blocks_subset get_top_blocks_other)
qed

text \<open>
  C9 as stated fails: the name \<^verbatim>\<open>number_of_transactions\<close> is not one of the fields;
  the key of a block is \<^verbatim>\<open>number_of_transaction\<close>.
\<close>

theorem get_top_blocks_plural_counterexample:
  "blocks (reset toy_lib ''t'' (ledger_init [])) \<noteq> []
   \<and> get_top_blocks (reset toy_lib ''t'' (ledger_init [])) ''number_of_transactions'' 1 = []"
  by (simp add: blocks_reset get_top_blocks_def)

text \<open>
  An instance: the chain after \<^verbatim>\<open>reset()\<close>, with \<open>n = 1\<close>.
\<close>

theorem get_top_blocks_fields_witness:
  "blocks (reset toy_lib ''t'' (ledger_init [])) \<noteq> []
   \<and> get_top_blocks (reset toy_lib ''t'' (ledger_init [])) ''number_of_transaction'' 1 \<noteq> []
   \<and> get_top_blocks (reset toy_lib ''t'' (ledger_init [])) ''height'' 1 \<noteq> []"
proof -
  have b: "blocks (reset toy_lib ''t'' (ledger_init [])) \<noteq> []"
    by (simp add: blocks_reset)
  have "(1::int) \<le> 1" by simp
  from get_top_blocks_fields [OF b this, of "[]"] b show ?thesis
    by simp
qed

end
